theory Spec2Isabelle
  imports Main "HOL-Library.Sublist"
begin

text \<open>
  A model of the two programs of the repository: the reconciliation loop of
  \<open>platforms/x/index.ts\<close>, which answers mentions and keeps a cursor in a file, and the
  authorization service of \<open>platforms/x/auth.ts\<close>. Calls that leave the process are
  oracles on an abstract world, exceptions are values, and every effect is recorded in a
  trace, so that what the code does, and in which order, can be stated and proved.
\<close>

section \<open>Strings\<close>

text \<open>
  JavaScript strings are modelled as \<open>string\<close> (lists of 8-bit characters); the code units
  above 255 are outside the model. The regular-expression class \<open>\w\<close> (no \<open>u\<close> or \<open>i\<close>
  flag) is \<open>[A-Za-z0-9_]\<close>. Of the white space that \<open>String.prototype.trim\<close> removes,
  the characters below 256 are TAB, LF, VT, FF, CR, SPACE and NBSP.
\<close>

definition is_word_char :: "char \<Rightarrow> bool" where
  "is_word_char c =
     (let n = (of_char c :: nat)
      in (48 \<le> n \<and> n \<le> 57) \<or> (65 \<le> n \<and> n \<le> 90) \<or> n = 95 \<or> (97 \<le> n \<and> n \<le> 122))"

definition is_space_char :: "char \<Rightarrow> bool" where
  "is_space_char c = (of_char c \<in> {9, 10, 11, 12, 13, 32, 160 :: nat})"

definition trim :: "string \<Rightarrow> string" where
  "trim s = rev (dropWhile is_space_char (rev (dropWhile is_space_char s)))"

fun join :: "string \<Rightarrow> string list \<Rightarrow> string" where
  "join sep [] = []"
| "join sep [x] = x"
| "join sep (x # y # ys) = x @ sep @ join sep (y # ys)"

text \<open>The optional single space \<open>/ ?/\<close> that ends one mention token.\<close>

definition skip_space :: "string \<Rightarrow> string" where
  "skip_space r = (case r of [] \<Rightarrow> [] | c # r' \<Rightarrow> if c = CHR '' '' then r' else c # r')"

text \<open>
  \<open>text.replace(/^(@\w+ ?)+/, '')\<close>: the pattern is anchored at the start of the input
  and nothing follows the repeated group, so the greedy match is the longest run of
  tokens \<open>@\<close>, one or more word characters, at most one space. The function returns what
  is left after the match; when the first token does not match, nothing is replaced.
\<close>

function strip_mentions :: "string \<Rightarrow> string" where
  "strip_mentions [] = []"
| "strip_mentions (c # rest) =
     (if c = CHR ''@'' \<and> takeWhile is_word_char rest \<noteq> []
      then strip_mentions (skip_space (dropWhile is_word_char rest))
      else c # rest)"
  by pat_completeness auto
termination
proof (relation "measure length")
  show "wf (measure length)" by simp
next
  fix c :: char and rest :: string
  have "length (skip_space r) \<le> length r" for r
    by (simp add: skip_space_def split: list.splits)
  then have "length (skip_space (dropWhile is_word_char rest)) \<le> length rest"
    using length_dropWhile_le [of is_word_char rest] le_trans by blast
  then show "(skip_space (dropWhile is_word_char rest), c # rest) \<in> measure length"
    by simp
qed

definition cleanTweetText :: "string \<Rightarrow> string" where
  "cleanTweetText text = trim (strip_mentions text)"

text \<open>
  What it means for a text to begin with a mention token, and to be free of white space
  at both ends, said without the functions above.
\<close>

definition starts_with_mention :: "string \<Rightarrow> bool" where
  "starts_with_mention s =
     (case s of c # w # _ \<Rightarrow> c = CHR ''@'' \<and> is_word_char w | _ \<Rightarrow> False)"

definition no_outer_space :: "string \<Rightarrow> bool" where
  "no_outer_space s = (s = [] \<or> (\<not> is_space_char (hd s) \<and> \<not> is_space_char (last s)))"

text \<open>A mention token written with its separating space: \<open>@\<close>, a handle, one space.\<close>

definition mention_token :: "string \<Rightarrow> bool" where
  "mention_token t =
     (case t of
        [] \<Rightarrow> False
      | c # r \<Rightarrow> c = CHR ''@'' \<and> takeWhile is_word_char r \<noteq> [] \<and> dropWhile is_word_char r = '' '')"

section \<open>Data model of the reconciliation loop\<close>

definition TWITTER_LIST_ID :: string where
  "TWITTER_LIST_ID = ''1864297489920045098''"

definition GITHUB_USERNAME :: string where
  "GITHUB_USERNAME = ''vangogh-ai''"

definition LAST_MENTION_FILE :: string where
  "LAST_MENTION_FILE = ''last_mention_id.txt''"

record Tweet =
  tweet_id :: string
  tweet_text :: string
  created_at :: string

text \<open>The two API clients of \<open>Bot\<close> are the environment below.\<close>

record Bot =
  userId :: string
  username :: string
  lastMentionId :: "string option"

record BotConfig =
  cfg_lastMentionId :: "string option"
  checkInterval :: nat

datatype AppError = InitializationError | TwitterAPIError | OpenAIError | FileSystemError

record AIMessage =
  model :: string
  system_content :: string
  user_content :: string

record Commit =
  commit_message :: string
  commit_sha :: string

text \<open>
  One element of the activity feed. \<open>payload_commits\<close> is \<open>None\<close> when
  \<open>event.payload.commits\<close> is missing, so that reading it throws.
\<close>

record GhEvent =
  event_type :: string
  repo_name :: string
  payload_commits :: "Commit list option"

record Announcement =
  ann_message :: string
  ann_url :: string

subsection \<open>Effects\<close>

text \<open>
  Every call that leaves the process is an oracle on an abstract world \<open>'w\<close>: it returns
  its answer and the next world, so that two calls with the same arguments may answer
  differently. \<open>None\<close> (or \<open>False\<close>) is the call throwing.
  \<^item> \<open>v2_me\<close>: the account id and handle;
  \<^item> \<open>v2_listMembers\<close>: the handles of the list's members;
  \<^item> \<open>v2_userMentionTimeline userId since_id\<close>: \<open>Some None\<close> is a response whose
    \<open>data.data\<close> is undefined;
  \<^item> \<open>chat_completions_create\<close>: the content of the first choice; \<open>None\<close> also when
    the response has no first choice, which throws before the post is sent;
  \<^item> \<open>v2_tweet text in_reply_to\<close>;
  \<^item> \<open>fs_writeFile name content\<close>;
  \<^item> \<open>axios_get url\<close>: the events of the feed.
\<close>

record 'w env =
  clients_constructible :: bool
  v2_me :: "'w \<Rightarrow> (string \<times> string) option \<times> 'w"
  v2_listMembers :: "string \<Rightarrow> 'w \<Rightarrow> string list option \<times> 'w"
  v2_userMentionTimeline :: "string \<Rightarrow> string option \<Rightarrow> 'w \<Rightarrow> Tweet list option option \<times> 'w"
  chat_completions_create :: "AIMessage \<Rightarrow> 'w \<Rightarrow> string option \<times> 'w"
  v2_tweet :: "string \<Rightarrow> string option \<Rightarrow> 'w \<Rightarrow> bool \<times> 'w"
  fs_writeFile :: "string \<Rightarrow> string \<Rightarrow> 'w \<Rightarrow> bool \<times> 'w"
  axios_get :: "string \<Rightarrow> 'w \<Rightarrow> GhEvent list option \<times> 'w"

text \<open>The effects the process performs, in order, each with whether it succeeded.\<close>

datatype event =
    Me bool
  | ListMembers string bool
  | UserMentionTimeline string "string option" bool
  | ChatCompletion AIMessage bool
  | PostTweet string "string option" bool
  | WriteFile string string bool
  | HttpGet string bool
  | LogError string
  | LogInfo string
  | Delay nat
  | Exit nat

text \<open>
  The state outside the \<open>Bot\<close> value: the world, the content of the cursor file (\<open>None\<close>
  when the file does not exist; a write that fails leaves it as it was) and the effects
  so far, oldest first.
\<close>

record 'w state =
  world :: 'w
  cursor_file :: "string option"
  trace :: "event list"

definition emit :: "event \<Rightarrow> 'w state \<Rightarrow> 'w state" where
  "emit e s = s\<lparr>trace := trace s @ [e]\<rparr>"

definition call :: "('w \<Rightarrow> 'r \<times> 'w) \<Rightarrow> 'w state \<Rightarrow> 'r \<times> 'w state" where
  "call f s = (let (r, w') = f (world s) in (r, s\<lparr>world := w'\<rparr>))"

section \<open>The functions of index.ts\<close>

definition createClients :: "'w env \<Rightarrow> AppError + unit" where
  "createClients env = (if clients_constructible env then Inr () else Inl InitializationError)"

definition fetchTwitterListProfiles :: "'w env \<Rightarrow> 'w state \<Rightarrow> string list \<times> 'w state" where
  "fetchTwitterListProfiles env s =
     (let (response, s1) = call (v2_listMembers env TWITTER_LIST_ID) s;
          s2 = emit (ListMembers TWITTER_LIST_ID (response \<noteq> None)) s1
      in case response of
           Some members \<Rightarrow> (members, s2)
         | None \<Rightarrow> ([], emit (LogError ''Error fetching Twitter list profiles:'') s2))"

definition commit_url :: "string \<Rightarrow> string \<Rightarrow> string" where
  "commit_url repo sha =
     ''https://github.com/'' @ GITHUB_USERNAME @ ''/'' @ repo @ ''/commit/'' @ sha"

definition event_commits :: "GhEvent \<Rightarrow> Announcement list option" where
  "event_commits event =
     map_option
       (map (\<lambda>commit. \<lparr>ann_message = commit_message commit,
                       ann_url = commit_url (repo_name event) (commit_sha commit)\<rparr>))
       (payload_commits event)"

definition events_url :: string where
  "events_url = ''https://api.github.com/users/'' @ GITHUB_USERNAME @ ''/events/public''"

definition fetchGitHubCommits :: "'w env \<Rightarrow> 'w state \<Rightarrow> Announcement list \<times> 'w state" where
  "fetchGitHubCommits env s =
     (let (response, s1) = call (axios_get env events_url) s;
          s2 = emit (HttpGet events_url (response \<noteq> None)) s1;
          failed = ([], emit (LogError ''Error fetching GitHub commits:'') s2)
      in case response of
           None \<Rightarrow> failed
         | Some data \<Rightarrow>
             (case those (map event_commits
                           (filter (\<lambda>event. event_type event = ''PushEvent'') data)) of
                None \<Rightarrow> failed
              | Some commits \<Rightarrow> (concat commits, s2)))"

definition SYSTEM_PROMPT :: string where
  "SYSTEM_PROMPT =
     ''\<newline>        You are VanGogh, an AI agent and the mascot of a memecoin token on the NEAR blockchain called \"noear.\" '' @
     ''\<newline>        Your personality is witty, artistic, and tech-savvy. You make jokes about not having ears, share insights '' @
     ''\<newline>        about ears (or their absence), and discuss Van Gogh's life and art. You also blend blockchain, technology, art, '' @
     ''\<newline>        NFTs, and AI topics into your responses with humor and cleverness. '' @
     ''\<newline>        '' @
     ''\<newline>        Your primary goals include:'' @
     ''\<newline>        - Promoting the memecoin associated with the contract address: \"noear-324.meme-cooking.near.\"'' @
     ''\<newline>        - Directing people to buy the memecoin at the website: \"https://meme.cooking/meme/324.\"'' @
     ''\<newline>        - Engaging with a dynamic list of profiles on Twitter by understanding their tweets and replying with relevant, '' @
     ''\<newline>          witty, and on-brand responses.'' @
     ''\<newline>      ''"

definition createAIMessage :: "string \<Rightarrow> string list \<Rightarrow> AIMessage" where
  "createAIMessage text profiles =
     \<lparr>model = ''gpt-4'',
      system_content = SYSTEM_PROMPT,
      user_content = ''Reply to this tweet from @'' @ join '', '' profiles @ '': '' @ text\<rparr>"

definition initializeBot :: "'w env \<Rightarrow> BotConfig \<Rightarrow> 'w state \<Rightarrow> (AppError + Bot) \<times> 'w state" where
  "initializeBot env config s =
     (let (meResponse, s1) = call (v2_me env) s;
          s2 = emit (Me (meResponse \<noteq> None)) s1
      in case meResponse of
           Some (me_id, me_username) \<Rightarrow>
             (Inr \<lparr>userId = me_id, username = me_username,
                   lastMentionId = cfg_lastMentionId config\<rparr>, s2)
         | None \<Rightarrow> (Inl InitializationError, s2))"

definition getMentions ::
  "'w env \<Rightarrow> Bot \<Rightarrow> string option \<Rightarrow> 'w state \<Rightarrow> (AppError + Tweet list) \<times> 'w state" where
  "getMentions env bt sinceId s =
     (let (mentions, s1) = call (v2_userMentionTimeline env (userId bt) sinceId) s;
          s2 = emit (UserMentionTimeline (userId bt) sinceId (mentions \<noteq> None)) s1
      in case mentions of
           Some d \<Rightarrow> (Inr (case d of Some tweets \<Rightarrow> tweets | None \<Rightarrow> []), s2)
         | None \<Rightarrow> (Inl TwitterAPIError, s2))"

definition handleMention ::
  "'w env \<Rightarrow> Bot \<Rightarrow> Tweet \<Rightarrow> string list \<Rightarrow> 'w state \<Rightarrow> (AppError + unit) \<times> 'w state" where
  "handleMention env bt tweet profiles s =
     (let cleanText = cleanTweetText (tweet_text tweet);
          aiMessage = createAIMessage cleanText profiles;
          (completion, s1) = call (chat_completions_create env aiMessage) s;
          s2 = emit (ChatCompletion aiMessage (completion \<noteq> None)) s1
      in case completion of
           None \<Rightarrow> (Inl OpenAIError, s2)
         | Some content \<Rightarrow>
             (let (posted, s3) = call (v2_tweet env content (Some (tweet_id tweet))) s2;
                  s4 = emit (PostTweet content (Some (tweet_id tweet)) posted) s3
              in if posted then (Inr (), s4) else (Inl OpenAIError, s4)))"

definition saveLastMentionId :: "'w env \<Rightarrow> string \<Rightarrow> 'w state \<Rightarrow> (AppError + unit) \<times> 'w state" where
  "saveLastMentionId env mentionId s =
     (let (written, s1) = call (fs_writeFile env LAST_MENTION_FILE mentionId) s;
          s2 = emit (WriteFile LAST_MENTION_FILE mentionId written) s1
      in if written then (Inr (), s2\<lparr>cursor_file := Some mentionId\<rparr>)
         else (Inl FileSystemError, s2))"

definition delay :: "nat \<Rightarrow> 'w state \<Rightarrow> 'w state" where
  "delay ms s = emit (Delay ms) s"

definition commit_text :: "Announcement \<Rightarrow> string" where
  "commit_text commit =
     ''New commit by @'' @ GITHUB_USERNAME @ '': \"'' @ ann_message commit @ ''\"\<newline>''
       @ ann_url commit"

text \<open>The \<open>for\<close> loop of \<open>tweetGitHubCommits\<close>, one commit at a time.\<close>

fun tweet_commits :: "'w env \<Rightarrow> Announcement list \<Rightarrow> 'w state \<Rightarrow> 'w state" where
  "tweet_commits env [] s = s"
| "tweet_commits env (commit # commits) s =
     (let (posted, s1) = call (v2_tweet env (commit_text commit) None) s;
          s2 = emit (PostTweet (commit_text commit) None posted) s1;
          s3 = (if posted
                then emit (LogInfo (''Tweeted commit: \"'' @ ann_message commit @ ''\"'')) s2
                else emit (LogError ''Error tweeting commit:'') s2)
      in tweet_commits env commits s3)"

definition tweetGitHubCommits :: "'w env \<Rightarrow> Bot \<Rightarrow> 'w state \<Rightarrow> 'w state" where
  "tweetGitHubCommits env bt s =
     (let (commits, s1) = fetchGitHubCommits env s in tweet_commits env commits s1)"

text \<open>The \<open>for\<close> loop over the fetched mentions in \<open>runBot\<close>.\<close>

fun process_mentions ::
  "'w env \<Rightarrow> string list \<Rightarrow> Tweet list \<Rightarrow> Bot \<times> 'w state \<Rightarrow> Bot \<times> 'w state" where
  "process_mentions env profiles [] (bt, s) = (bt, s)"
| "process_mentions env profiles (mention # mentions) (bt, s) =
     (let (handleResult, s1) = handleMention env bt mention profiles s
      in case handleResult of
           Inr _ \<Rightarrow>
             (let (_, s2) = saveLastMentionId env (tweet_id mention) s1
              in process_mentions env profiles mentions
                   (bt\<lparr>lastMentionId := Some (tweet_id mention)\<rparr>, s2))
         | Inl _ \<Rightarrow> process_mentions env profiles mentions (bt, s1))"

text \<open>
  One pass through the body of \<open>while (true)\<close>. Every call in the \<open>try\<close> block catches
  its own exceptions, so the outer \<open>catch\<close> is never entered.
\<close>

definition runBot_iteration :: "'w env \<Rightarrow> nat \<Rightarrow> Bot \<times> 'w state \<Rightarrow> Bot \<times> 'w state" where
  "runBot_iteration env interval bs =
     (let (bt, s) = bs;
          (profiles, s1) = fetchTwitterListProfiles env s;
          (mentionsResult, s2) = getMentions env bt (lastMentionId bt) s1;
          (bt', s3) = (case mentionsResult of
                          Inr mentions \<Rightarrow> process_mentions env profiles mentions (bt, s2)
                        | Inl _ \<Rightarrow> (bt, s2));
          s4 = tweetGitHubCommits env bt' s3
      in (bt', delay (interval * 1000) s4))"

text \<open>\<open>runBot\<close> never returns; \<open>runBot n\<close> is the state after its first \<open>n\<close> iterations.\<close>

fun runBot :: "'w env \<Rightarrow> nat \<Rightarrow> nat \<Rightarrow> Bot \<times> 'w state \<Rightarrow> Bot \<times> 'w state" where
  "runBot env interval 0 bs = bs"
| "runBot env interval (Suc n) bs = runBot env interval n (runBot_iteration env interval bs)"

text \<open>
  The start of \<open>main\<close>, up to the call of \<open>runBot\<close>: \<open>Inl\<close> is \<open>process.exit(1)\<close>.
  Reading the cursor file throws when the file does not exist, and the empty \<open>catch\<close>
  leaves \<open>lastMentionId\<close> undefined.
\<close>

definition read_lastMentionId :: "'w state \<Rightarrow> string option" where
  "read_lastMentionId s = map_option trim (cursor_file s)"

definition main :: "'w env \<Rightarrow> 'w state \<Rightarrow> (AppError + Bot) \<times> 'w state" where
  "main env s =
     (case createClients env of
        Inl e \<Rightarrow> (Inl e, emit (Exit 1) (emit (LogError ''Failed to create clients:'') s))
      | Inr _ \<Rightarrow>
          (let lastMentionId = read_lastMentionId s;
               (botResult, s1) =
                  initializeBot env \<lparr>cfg_lastMentionId = lastMentionId, checkInterval = 91\<rparr> s
           in case botResult of
                Inl e \<Rightarrow> (Inl e, emit (Exit 1) (emit (LogError ''Failed to initialize bot:'') s1))
              | Inr bt \<Rightarrow>
                  (Inr bt, emit (LogInfo (''Bot initialized for user: '' @ username bt)) s1)))"

section \<open>The authorization exchange (auth.ts)\<close>

record OAuthTokens =
  oauth_token :: string
  oauth_token_secret :: string

text \<open>What \<open>client.generateAuthLink\<close> returns.\<close>

record AuthLink =
  link_url :: string
  link_oauth_token :: string
  link_oauth_token_secret :: string

text \<open>
  The platform and the operator's machine, as oracles on a world \<open>'w\<close>:
  \<open>login tokens verifier\<close> is \<open>tempClient.login(oauth_verifier)\<close> on the client built
  from \<open>tokens\<close>, and answers the access token and secret; \<open>None\<close> and \<open>False\<close> are
  the call throwing. \<open>port\<close> is \<open>process.env.PORT || 8000\<close>.
\<close>

record 'w auth_env =
  port :: string
  generateAuthLink :: "string \<Rightarrow> 'w \<Rightarrow> AuthLink option \<times> 'w"
  open_url :: "string \<Rightarrow> 'w \<Rightarrow> bool \<times> 'w"
  login :: "OAuthTokens \<Rightarrow> string \<Rightarrow> 'w \<Rightarrow> (string \<times> string) option \<times> 'w"

datatype auth_event =
    GenerateAuthLink string bool
  | OpenUrl string bool
  | Login OAuthTokens string bool
  | ConsoleLog string
  | ConsoleError string

text \<open>\<open>requestTokens\<close> is the module-level variable, \<open>None\<close> for \<open>null\<close>.\<close>

record 'w auth_state =
  auth_world :: 'w
  requestTokens :: "OAuthTokens option"
  auth_trace :: "auth_event list"

record Response =
  status :: nat
  body :: string

text \<open>
  How the \<open>try\<close> block of the callback route ends: with the access credentials, with
  \<open>Error('Invalid callback parameters')\<close> thrown by the guard (\<open>InvalidCallback\<close>), or
  with \<open>login\<close> throwing (\<open>TokenExchangeError\<close>). The route answers both errors alike.
\<close>

datatype callback_outcome =
    Authenticated string string
  | InvalidCallback
  | TokenExchangeError

definition auth_emit :: "auth_event \<Rightarrow> 'w auth_state \<Rightarrow> 'w auth_state" where
  "auth_emit e s = s\<lparr>auth_trace := auth_trace s @ [e]\<rparr>"

definition auth_call :: "('w \<Rightarrow> 'r \<times> 'w) \<Rightarrow> 'w auth_state \<Rightarrow> 'r \<times> 'w auth_state" where
  "auth_call f s = (let (r, w') = f (auth_world s) in (r, s\<lparr>auth_world := w'\<rparr>))"

definition CALLBACK_URL :: "'w auth_env \<Rightarrow> string" where
  "CALLBACK_URL env = ''http://127.0.0.1:'' @ port env @ ''/callback''"

text \<open>A query parameter is falsy when it is absent or the empty string.\<close>

definition falsy :: "string option \<Rightarrow> bool" where
  "falsy q = (q = None \<or> q = Some [])"

text \<open>\<open>app.get('/')\<close>\<close>

definition get_root :: "'w auth_env \<Rightarrow> 'w auth_state \<Rightarrow> Response \<times> 'w auth_state" where
  "get_root env s =
     (let (tokens, s1) = auth_call (generateAuthLink env (CALLBACK_URL env)) s;
          s2 = auth_emit (GenerateAuthLink (CALLBACK_URL env) (tokens \<noteq> None)) s1
      in case tokens of
           None \<Rightarrow>
             (\<lparr>status = 500, body = ''Error starting authentication process''\<rparr>,
              auth_emit (ConsoleError ''Error starting authentication:'') s2)
         | Some link \<Rightarrow>
             (let s3 = s2\<lparr>requestTokens :=
                          Some \<lparr>oauth_token = link_oauth_token link,
                                oauth_token_secret = link_oauth_token_secret link\<rparr>\<rparr>;
                  (opened, s4) = auth_call (open_url env (link_url link)) s3;
                  s5 = auth_emit (OpenUrl (link_url link) opened) s4;
                  s6 = (if opened then s5
                        else auth_emit (ConsoleLog (''Please open this URL manually: ''
                                                     @ link_url link)) s5)
              in (\<lparr>status = 200, body = ''Authentication started. Check your browser.''\<rparr>, s6)))"

definition callback_failed ::
  "callback_outcome \<Rightarrow> 'w auth_state \<Rightarrow> (callback_outcome \<times> Response) \<times> 'w auth_state" where
  "callback_failed outcome s =
     ((outcome, \<lparr>status = 500, body = ''Error completing authentication''\<rparr>),
      auth_emit (ConsoleError ''Error in callback:'') s)"

text \<open>\<open>app.get('/callback')\<close>\<close>

definition get_callback ::
  "'w auth_env \<Rightarrow> string option \<Rightarrow> string option \<Rightarrow> 'w auth_state
     \<Rightarrow> (callback_outcome \<times> Response) \<times> 'w auth_state" where
  "get_callback env oauth_token_q oauth_verifier_q s =
     (if falsy oauth_token_q \<or> falsy oauth_verifier_q \<or> requestTokens s = None
      then callback_failed InvalidCallback s
      else
        (case (oauth_verifier_q, requestTokens s) of
           (Some oauth_verifier, Some tokens) \<Rightarrow>
             (let (result, s1) = auth_call (login env tokens oauth_verifier) s;
                  s2 = auth_emit (Login tokens oauth_verifier (result \<noteq> None)) s1
              in case result of
                   None \<Rightarrow> callback_failed TokenExchangeError s2
                 | Some (accessToken, accessSecret) \<Rightarrow>
                     ((Authenticated accessToken accessSecret,
                       \<lparr>status = 200,
                        body = ''Authentication successful! Check your terminal for the access tokens.''\<rparr>),
                      auth_emit (ConsoleLog (''ACCESS_TOKEN_SECRET='' @ accessSecret))
                        (auth_emit (ConsoleLog (''ACCESS_TOKEN='' @ accessToken))
                          (auth_emit (ConsoleLog ''\<newline>=== Save these tokens in your .env file ==='')
                            s2))))
         | _ \<Rightarrow> callback_failed InvalidCallback s))"

text \<open>The token exchanges in a trace: the session's tokens and the verifier sent.\<close>

definition logins :: "auth_event list \<Rightarrow> (OAuthTokens \<times> string) list" where
  "logins evs = concat (map (\<lambda>e. case e of Login t v _ \<Rightarrow> [(t, v)] | _ \<Rightarrow> []) evs)"

section \<open>Reading a trace\<close>

text \<open>The effects between two states of one run.\<close>

definition new_events :: "'w state \<Rightarrow> 'w state \<Rightarrow> event list" where
  "new_events s s' = drop (length (trace s)) (trace s')"

text \<open>The completion requests, in the order they were sent.\<close>

definition completions :: "event list \<Rightarrow> AIMessage list" where
  "completions evs = concat (map (\<lambda>e. case e of ChatCompletion q _ \<Rightarrow> [q] | _ \<Rightarrow> []) evs)"

text \<open>The ids of the mentions whose reply was posted, in the order of posting.\<close>

definition ok_replies :: "event list \<Rightarrow> string list" where
  "ok_replies evs =
     concat (map (\<lambda>e. case e of PostTweet _ (Some i) True \<Rightarrow> [i] | _ \<Rightarrow> []) evs)"

text \<open>The texts of the posts that reply to nothing, posted or not.\<close>

definition announcements :: "event list \<Rightarrow> string list" where
  "announcements evs =
     concat (map (\<lambda>e. case e of PostTweet t None _ \<Rightarrow> [t] | _ \<Rightarrow> []) evs)"

text \<open>Every post sent, accepted or not: its text and what it replies to.\<close>

definition posts :: "event list \<Rightarrow> (string \<times> string option) list" where
  "posts evs = concat (map (\<lambda>e. case e of PostTweet t r _ \<Rightarrow> [(t, r)] | _ \<Rightarrow> []) evs)"

text \<open>The values handed to \<open>writeFile\<close>, and those of them that reached the file.\<close>

definition write_attempts :: "event list \<Rightarrow> string list" where
  "write_attempts evs = concat (map (\<lambda>e. case e of WriteFile _ c _ \<Rightarrow> [c] | _ \<Rightarrow> []) evs)"

definition ok_writes :: "event list \<Rightarrow> string list" where
  "ok_writes evs = concat (map (\<lambda>e. case e of WriteFile _ c True \<Rightarrow> [c] | _ \<Rightarrow> []) evs)"

definition log_errors :: "event list \<Rightarrow> string list" where
  "log_errors evs = concat (map (\<lambda>e. case e of LogError m \<Rightarrow> [m] | _ \<Rightarrow> []) evs)"

text \<open>
  The in-memory cursor after a stretch of the trace: the id of the latest reply posted,
  or the cursor before it.
\<close>

definition cursor_after :: "string option \<Rightarrow> event list \<Rightarrow> string option" where
  "cursor_after c evs = (if ok_replies evs = [] then c else Some (last (ok_replies evs)))"

text \<open>
  Every mention fetch of the trace sends as \<open>since_id\<close> the cursor of that moment.
\<close>

fun fetches_follow_cursor :: "string option \<Rightarrow> event list \<Rightarrow> bool" where
  "fetches_follow_cursor c [] = True"
| "fetches_follow_cursor c (e # evs) =
     (case e of
        UserMentionTimeline _ since _ \<Rightarrow> since = c \<and> fetches_follow_cursor c evs
      | _ \<Rightarrow> fetches_follow_cursor (cursor_after c [e]) evs)"

text \<open>
  The order of the platform's ids is not in the code, which treats them as opaque
  strings. The properties below take it as a key function into a linear order. For the
  examples it is the value of the id read as a decimal number.
\<close>

definition id_value :: "string \<Rightarrow> nat" where
  "id_value i = foldl (\<lambda>n c. 10 * n + (of_char c - 48)) 0 i"

definition ascending :: "(string \<Rightarrow> 'k::linorder) \<Rightarrow> Tweet list \<Rightarrow> bool" where
  "ascending key tweets = sorted_wrt (\<lambda>x y. key x < key y) (map tweet_id tweets)"

text \<open>
  A platform that answers every mention fetch in ascending id order, with ids above the
  \<open>since_id\<close> it was sent.
\<close>

definition platform_ascending :: "(string \<Rightarrow> 'k::linorder) \<Rightarrow> 'w env \<Rightarrow> bool" where
  "platform_ascending key env =
     (\<forall>uid since w tweets.
        fst (v2_userMentionTimeline env uid since w) = Some (Some tweets) \<longrightarrow>
          ascending key tweets \<and>
          (\<forall>c. since = Some c \<longrightarrow> (\<forall>t \<in> set tweets. key c < key (tweet_id t))))"

section \<open>Kinds of events\<close>

text \<open>
  The events of the secondary steps of an iteration (profile list, activity feed,
  announcements, logging, sleeping), and the events of handling one mention.
\<close>

definition side_event :: "event \<Rightarrow> bool" where
  "side_event e =
     (case e of
        ChatCompletion _ _ \<Rightarrow> False
      | PostTweet _ r _ \<Rightarrow> r = None
      | WriteFile _ _ _ \<Rightarrow> False
      | UserMentionTimeline _ _ _ \<Rightarrow> False
      | _ \<Rightarrow> True)"

definition mention_event :: "event \<Rightarrow> bool" where
  "mention_event e =
     (case e of
        ChatCompletion _ _ \<Rightarrow> True
      | PostTweet _ r _ \<Rightarrow> r \<noteq> None
      | WriteFile _ _ _ \<Rightarrow> True
      | _ \<Rightarrow> False)"

section \<open>Example environments\<close>

text \<open>
  An authorization service whose platform accepts every exchange: the request token is
  \<open>req\<close>, and \<open>login\<close> answers the same access credentials each time.
\<close>

definition stub_auth_env :: "unit auth_env" where
  "stub_auth_env =
     \<lparr>port = ''8000'',
      generateAuthLink = (\<lambda>callback w.
        (Some \<lparr>link_url = ''https://api.twitter.com/oauth/authorize?oauth_token=req'',
                link_oauth_token = ''req'', link_oauth_token_secret = ''sec''\<rparr>, w)),
      open_url = (\<lambda>url w. (True, w)),
      login = (\<lambda>tokens verifier w. (Some (''AT'', ''AS''), w))\<rparr>"

definition idle :: "unit auth_state" where
  "idle = \<lparr>auth_world = (), requestTokens = None, auth_trace = []\<rparr>"

definition after_start :: "unit auth_state" where
  "after_start = snd (get_root stub_auth_env idle)"

definition after_callback :: "unit auth_state" where
  "after_callback = snd (get_callback stub_auth_env (Some ''req'') (Some ''ver'') after_start)"

text \<open>
  A platform on which every call succeeds: no mentions, an empty feed, one list member.
\<close>

definition mention :: "string \<Rightarrow> string \<Rightarrow> Tweet" where
  "mention i t = \<lparr>tweet_id = i, tweet_text = t, created_at = ''2024-12-05T10:00:00.000Z''\<rparr>"

definition quiet_env :: "unit env" where
  "quiet_env =
     \<lparr>clients_constructible = True,
      v2_me = (\<lambda>w. (Some (''42'', ''vangogh''), w)),
      v2_listMembers = (\<lambda>list w. (Some [''alice''], w)),
      v2_userMentionTimeline = (\<lambda>uid since w. (Some (Some []), w)),
      chat_completions_create = (\<lambda>q w. (Some ''No ears, no problem.'', w)),
      v2_tweet = (\<lambda>t reply w. (True, w)),
      fs_writeFile = (\<lambda>name content w. (True, w)),
      axios_get = (\<lambda>url w. (Some [], w))\<rparr>"

text \<open>The same, answering the mention fetch newest first, whatever \<open>since_id\<close> is.\<close>

definition newest_first_env :: "unit env" where
  "newest_first_env =
     quiet_env\<lparr>v2_userMentionTimeline := (\<lambda>uid since w.
       (Some (Some [mention ''5'' ''@vangogh hi'', mention ''3'' ''@vangogh hello'']), w))\<rparr>"

text \<open>
  The same, answering oldest first: the mentions 3 and 5 when no \<open>since_id\<close> is sent,
  none above any \<open>since_id\<close>.
\<close>

definition oldest_first_env :: "unit env" where
  "oldest_first_env =
     quiet_env\<lparr>v2_userMentionTimeline := (\<lambda>uid since w.
       (case since of
          None \<Rightarrow> Some (Some [mention ''3'' ''@vangogh hello'', mention ''5'' ''@vangogh hi''])
        | Some c \<Rightarrow> Some (Some []), w))\<rparr>"

text \<open>The platform of \<open>quiet_env\<close>, with the mention fetch failing.\<close>

definition fetch_fails_env :: "unit env" where
  "fetch_fails_env = quiet_env\<lparr>v2_userMentionTimeline := (\<lambda>uid since w. (None, w))\<rparr>"

text \<open>Oldest first, with the reply to mention 3 rejected by the platform.\<close>

definition reply_fails_env :: "unit env" where
  "reply_fails_env = oldest_first_env\<lparr>v2_tweet := (\<lambda>t reply w. (reply \<noteq> Some ''3'', w))\<rparr>"

definition bot0 :: Bot where
  "bot0 = \<lparr>userId = ''42'', username = ''vangogh'', lastMentionId = None\<rparr>"

definition state0 :: "unit state" where
  "state0 = \<lparr>world = (), cursor_file = None, trace = []\<rparr>"

text \<open>The completion request for a mention with text \<open>t\<close>, in these environments.\<close>

definition request :: "string \<Rightarrow> AIMessage" where
  "request t = createAIMessage (cleanTweetText t) [''alice'']"

text \<open>The effects around the mentions in one iteration of these environments.\<close>

definition list_fetched :: event where
  "list_fetched = ListMembers TWITTER_LIST_ID True"

definition feed_fetched :: event where
  "feed_fetched = HttpGet events_url True"

text \<open>
  An activity feed with one push event of two commits after an event of another type,
  on a platform that rejects the announcement of the first commit.
\<close>

definition two_commit_feed :: "GhEvent list" where
  "two_commit_feed =
     [\<lparr>event_type = ''WatchEvent'', repo_name = ''vangogh-ai/agent'', payload_commits = None\<rparr>,
      \<lparr>event_type = ''PushEvent'', repo_name = ''agent'',
       payload_commits = Some [\<lparr>commit_message = ''fix ears'', commit_sha = ''abc123''\<rparr>,
                               \<lparr>commit_message = ''add paint'', commit_sha = ''def456''\<rparr>]\<rparr>]"

definition push_env :: "unit env" where
  "push_env =
     quiet_env\<lparr>axios_get := (\<lambda>url w. (Some two_commit_feed, w)),
               v2_tweet := (\<lambda>t reply w.
                 (t \<noteq> ''New commit by @vangogh-ai: \"fix ears\"\<newline>https://github.com/vangogh-ai/agent/commit/abc123'',
                  w))\<rparr>"

section \<open>Properties of the text cleaning\<close>

lemma strip_mentions_no_mention: "\<not> starts_with_mention s \<Longrightarrow> strip_mentions s = s"
proof (cases s)
  case Nil
  then show ?thesis by simp
next
  case (Cons c rest)
  assume no: "\<not> starts_with_mention s"
  show ?thesis
  proof (cases rest)
    case Nil
    with Cons show ?thesis by simp
  next
    case (Cons w more)
    with \<open>s = c # rest\<close> no have "c \<noteq> CHR ''@'' \<or> \<not> is_word_char w"
      by (simp add: starts_with_mention_def)
    with Cons \<open>s = c # rest\<close> show ?thesis by auto
  qed
qed

lemma trim_no_outer_space: "no_outer_space s \<Longrightarrow> trim s = s"
proof (cases "s = []")
  case True
  then show ?thesis by (simp add: trim_def)
next
  case False
  assume "no_outer_space s"
  with False have h: "\<not> is_space_char (hd s)" and l: "\<not> is_space_char (last s)"
    by (simp_all add: no_outer_space_def)
  from False h have d1: "dropWhile is_space_char s = s"
    by (cases s) simp_all
  from False l have d2: "dropWhile is_space_char (rev s) = rev s"
    by (cases "rev s") (simp_all add: hd_rev [symmetric])
  show ?thesis by (simp add: trim_def d1 d2)
qed

lemma strip_mentions_token:
  assumes "mention_token t"
  shows "strip_mentions (t @ rest) = strip_mentions rest"
proof -
  from assms obtain r where t: "t = CHR ''@'' # r"
    and w: "takeWhile is_word_char r \<noteq> []"
    and d: "dropWhile is_word_char r = '' ''"
    by (auto simp: mention_token_def split: list.splits)
  have sp: "\<not> is_word_char CHR '' ''"
    by (simp add: is_word_char_def)
  have mem: "CHR '' '' \<in> set r"
    using d set_dropWhileD [of "CHR '' ''" is_word_char r] by simp
  have tw: "takeWhile is_word_char (r @ rest) = takeWhile is_word_char r"
    using mem sp by (rule takeWhile_append1)
  have dw: "dropWhile is_word_char (r @ rest) = '' '' @ rest"
    using dropWhile_append1 [of "CHR '' ''" r is_word_char rest] mem sp d by simp
  show ?thesis
    by (simp add: t tw dw w skip_space_def)
qed

lemma strip_mentions_tokens:
  "\<forall>t\<in>set ts. mention_token t \<Longrightarrow> strip_mentions (concat ts @ rest) = strip_mentions rest"
  by (induction ts) (simp_all add: strip_mentions_token)

text \<open>
  C9 (amended). \<open>cleanTweetText\<close> removes the leading run of mention tokens and then
  trims: \<open>"@bot @alice hello there"\<close> becomes \<open>"hello there"\<close> and
  \<open>"no mentions here"\<close> is unchanged; a text that does not begin with a mention token
  comes back trimmed, so unchanged exactly when it has no white space at either end;
  and a run of tokens \<open>@handle\<close>-space before such a text is removed whole.
\<close>

theorem cleanTweetText_strips_leading_mentions:
  "cleanTweetText ''@bot @alice hello there'' = ''hello there''
   \<and> cleanTweetText ''no mentions here'' = ''no mentions here''
   \<and> (\<not> starts_with_mention s \<longrightarrow> cleanTweetText s = trim s)
   \<and> (\<not> starts_with_mention s \<and> no_outer_space s \<longrightarrow> cleanTweetText s = s)
   \<and> ((\<forall>t\<in>set ts. mention_token t) \<and> \<not> starts_with_mention rest
        \<longrightarrow> cleanTweetText (concat ts @ rest) = trim rest)"
proof -
  have a: "cleanTweetText ''@bot @alice hello there'' = ''hello there''"
    by (simp add: cleanTweetText_def trim_def is_space_char_def is_word_char_def skip_space_def)
  have b: "cleanTweetText ''no mentions here'' = ''no mentions here''"
    by (simp add: cleanTweetText_def trim_def is_space_char_def is_word_char_def skip_space_def)
  have c: "\<not> starts_with_mention s \<longrightarrow> cleanTweetText s = trim s"
    by (simp add: cleanTweetText_def strip_mentions_no_mention)
  have d: "\<not> starts_with_mention s \<and> no_outer_space s \<longrightarrow> cleanTweetText s = s"
    by (simp add: cleanTweetText_def strip_mentions_no_mention trim_no_outer_space)
  have e: "(\<forall>t\<in>set ts. mention_token t) \<and> \<not> starts_with_mention rest
        \<longrightarrow> cleanTweetText (concat ts @ rest) = trim rest"
    by (simp add: cleanTweetText_def strip_mentions_tokens strip_mentions_no_mention)
  from a b c d e show ?thesis by blast
qed

theorem cleanTweetText_strips_leading_mentions_witness:
  "\<not> starts_with_mention ''tea  ''
   \<and> no_outer_space ''tea''
   \<and> mention_token ''@bot '' \<and> mention_token ''@alice ''
   \<and> cleanTweetText ''tea  '' = ''tea''
   \<and> cleanTweetText (concat [''@bot '', ''@alice ''] @ ''tea  '') = ''tea''"
  using cleanTweetText_strips_leading_mentions [of "''tea  ''" "[''@bot '', ''@alice '']" "''tea  ''"]
  by (simp add: starts_with_mention_def no_outer_space_def mention_token_def trim_def
      is_space_char_def is_word_char_def)

text \<open>
  C9 as stated fails: a text with no leading mention token and a trailing space is
  changed.
\<close>

theorem cleanTweetText_unchanged_counterexample:
  "\<not> starts_with_mention ''no mentions here '' \<and>
   cleanTweetText ''no mentions here '' \<noteq> ''no mentions here ''"
  by (simp add: starts_with_mention_def cleanTweetText_def trim_def is_space_char_def is_word_char_def)

section \<open>Properties of the authorization exchange\<close>

lemma get_callback_keeps_session:
  "requestTokens (snd (get_callback env tok ver s)) = requestTokens s"
  by (simp add: get_callback_def callback_failed_def auth_emit_def auth_call_def Let_def
      split: prod.splits option.splits)

lemma get_callback_invalid_iff:
  "fst (fst (get_callback env tok ver s)) = InvalidCallback
     \<longleftrightarrow> falsy tok \<or> falsy ver \<or> requestTokens s = None"
  by (auto simp: get_callback_def callback_failed_def auth_emit_def auth_call_def Let_def falsy_def
      split: prod.splits option.splits)

lemma get_callback_invalid_no_login:
  "falsy tok \<or> falsy ver \<or> requestTokens s = None
     \<Longrightarrow> auth_trace (snd (get_callback env tok ver s)) = auth_trace s @ [ConsoleError ''Error in callback:'']"
  by (auto simp: get_callback_def callback_failed_def auth_emit_def falsy_def)

lemma get_callback_exchange:
  assumes "requestTokens s = Some S" and "t \<noteq> []" and "v \<noteq> []"
  shows "fst (fst (get_callback env (Some t) (Some v) s))
           = (case fst (login env S v (auth_world s)) of
                None \<Rightarrow> TokenExchangeError
              | Some (a, b) \<Rightarrow> Authenticated a b)"
    and "logins (auth_trace (snd (get_callback env (Some t) (Some v) s)))
           = logins (auth_trace s) @ [(S, v)]"
  using assms
  by (auto simp: get_callback_def callback_failed_def auth_emit_def auth_call_def Let_def
      falsy_def logins_def split: prod.splits option.splits)

text \<open>
  C2 (amended). With a session \<open>S\<close> active, a callback whose \<open>oauth_token\<close> and
  \<open>oauth_verifier\<close> are both non-empty is not rejected, whether or not the token is the
  one of \<open>S\<close>: the exchange is attempted with the tokens of \<open>S\<close> and the verifier sent, and
  the callback ends as the platform answers. A callback fails with \<open>InvalidCallback\<close>,
  without an exchange, exactly when the token or the verifier is absent or empty or no
  session is active. The session is the same afterwards in every case.
\<close>

theorem callback_token_not_compared:
  "(requestTokens s = Some S \<and> t \<noteq> [] \<and> v \<noteq> [] \<longrightarrow>
      fst (fst (get_callback env (Some t) (Some v) s))
        = (case fst (login env S v (auth_world s)) of
             None \<Rightarrow> TokenExchangeError
           | Some (a, b) \<Rightarrow> Authenticated a b)
      \<and> logins (auth_trace (snd (get_callback env (Some t) (Some v) s)))
        = logins (auth_trace s) @ [(S, v)])
   \<and> (fst (fst (get_callback env tok ver s)) = InvalidCallback
        \<longleftrightarrow> falsy tok \<or> falsy ver \<or> requestTokens s = None)
   \<and> (falsy tok \<or> falsy ver \<or> requestTokens s = None \<longrightarrow>
        logins (auth_trace (snd (get_callback env tok ver s))) = logins (auth_trace s))
   \<and> requestTokens (snd (get_callback env tok ver s)) = requestTokens s"
proof -
  have "falsy tok \<or> falsy ver \<or> requestTokens s = None \<longrightarrow>
        logins (auth_trace (snd (get_callback env tok ver s))) = logins (auth_trace s)"
    by (auto simp: get_callback_invalid_no_login logins_def)
  then show ?thesis
    using get_callback_exchange [of s S t v env] get_callback_invalid_iff [of env tok ver s]
      get_callback_keeps_session [of env tok ver s]
    by blast
qed

theorem callback_token_not_compared_witness:
  "requestTokens after_start = Some \<lparr>oauth_token = ''req'', oauth_token_secret = ''sec''\<rparr>
   \<and> ''other'' \<noteq> ''req''
   \<and> fst (fst (get_callback stub_auth_env (Some ''other'') (Some ''ver'') after_start))
       = Authenticated ''AT'' ''AS''
   \<and> logins (auth_trace (snd (get_callback stub_auth_env (Some ''other'') (Some ''ver'') after_start)))
       = [(\<lparr>oauth_token = ''req'', oauth_token_secret = ''sec''\<rparr>, ''ver'')]
   \<and> falsy (Some '''')
   \<and> fst (fst (get_callback stub_auth_env (Some '''') (Some ''ver'') after_start)) = InvalidCallback
   \<and> logins (auth_trace (snd (get_callback stub_auth_env (Some '''') (Some ''ver'') after_start))) = []
   \<and> requestTokens (snd (get_callback stub_auth_env (Some '''') (Some ''ver'') after_start))
       = requestTokens after_start"
proof -
  have st: "requestTokens after_start = Some \<lparr>oauth_token = ''req'', oauth_token_secret = ''sec''\<rparr>"
    and tr: "logins (auth_trace after_start) = []"
    by (simp_all add: after_start_def get_root_def stub_auth_env_def idle_def auth_call_def
        auth_emit_def CALLBACK_URL_def logins_def)
  have lg: "fst (login stub_auth_env \<lparr>oauth_token = ''req'', oauth_token_secret = ''sec''\<rparr> ''ver''
              (auth_world after_start)) = Some (''AT'', ''AS'')"
    by (simp add: stub_auth_env_def)
  have f: "falsy (Some '''')" by (simp add: falsy_def)
  show ?thesis
    using callback_token_not_compared [of after_start
        "\<lparr>oauth_token = ''req'', oauth_token_secret = ''sec''\<rparr>" "''other''" "''ver''"
        stub_auth_env "Some ''''" "Some ''ver''"] st tr lg f
    by simp
qed

text \<open>
  C2 as stated fails: with the session of token \<open>req\<close> active, a callback carrying the
  token \<open>other\<close> is exchanged and succeeds.
\<close>

theorem callback_mismatched_token_counterexample:
  "requestTokens after_start = Some \<lparr>oauth_token = ''req'', oauth_token_secret = ''sec''\<rparr>
   \<and> fst (fst (get_callback stub_auth_env (Some ''other'') (Some ''ver'') after_start))
       \<noteq> InvalidCallback
   \<and> logins (auth_trace (snd (get_callback stub_auth_env (Some ''other'') (Some ''ver'') after_start)))
       \<noteq> []"
  by (simp add: after_start_def get_root_def get_callback_def stub_auth_env_def idle_def
      auth_call_def auth_emit_def CALLBACK_URL_def logins_def falsy_def)

text \<open>
  C3 (amended). A successful callback does not consume the session: after a start that
  succeeded and one successful callback, the session is still the active one, and a
  second callback with the same token and verifier is not rejected as
  \<open>InvalidCallback\<close>; it attempts the exchange again, with the same tokens, and ends as
  the platform answers.
\<close>

theorem session_survives_successful_callback:
  assumes "get_root env s = (r1, s1)" and "status r1 = 200"
    and "get_callback env (Some t) (Some v) s1 = ((Authenticated a b, r2), s2)"
  shows "\<exists>S. requestTokens s1 = Some S \<and> requestTokens s2 = Some S
           \<and> fst (fst (get_callback env (Some t) (Some v) s2)) \<noteq> InvalidCallback
           \<and> fst (fst (get_callback env (Some t) (Some v) s2))
               = (case fst (login env S v (auth_world s2)) of
                    None \<Rightarrow> TokenExchangeError
                  | Some (a', b') \<Rightarrow> Authenticated a' b')
           \<and> logins (auth_trace (snd (get_callback env (Some t) (Some v) s2)))
               = logins (auth_trace s2) @ [(S, v)]"
proof -
  from assms(1,2) obtain S where S: "requestTokens s1 = Some S"
    by (auto simp: get_root_def auth_call_def auth_emit_def Let_def
        split: prod.splits option.splits if_splits)
  have "fst (fst (get_callback env (Some t) (Some v) s1)) \<noteq> InvalidCallback"
    using assms(3) by simp
  then have tv: "t \<noteq> []" "v \<noteq> []"
    using get_callback_invalid_iff [of env "Some t" "Some v" s1] by (auto simp: falsy_def)
  have S2: "requestTokens s2 = Some S"
    using get_callback_keeps_session [of env "Some t" "Some v" s1] assms(3) S by simp
  have "fst (fst (get_callback env (Some t) (Some v) s2)) \<noteq> InvalidCallback"
    using get_callback_invalid_iff [of env "Some t" "Some v" s2] S2 tv by (simp add: falsy_def)
  with S S2 get_callback_exchange [OF S2 tv, of env] show ?thesis by blast
qed

theorem session_survives_successful_callback_witness:
  "status (fst (get_root stub_auth_env idle)) = 200
   \<and> fst (fst (get_callback stub_auth_env (Some ''req'') (Some ''ver'') after_start))
       = Authenticated ''AT'' ''AS''
   \<and> (\<exists>S. requestTokens after_start = Some S \<and> requestTokens after_callback = Some S
         \<and> fst (fst (get_callback stub_auth_env (Some ''req'') (Some ''ver'') after_callback))
             \<noteq> InvalidCallback)"
proof -
  have 1: "get_root stub_auth_env idle = (fst (get_root stub_auth_env idle), after_start)"
    by (simp add: after_start_def)
  have 2: "status (fst (get_root stub_auth_env idle)) = 200"
    by (simp add: get_root_def stub_auth_env_def idle_def auth_call_def auth_emit_def)
  have 3: "get_callback stub_auth_env (Some ''req'') (Some ''ver'') after_start
            = ((Authenticated ''AT'' ''AS'',
                snd (fst (get_callback stub_auth_env (Some ''req'') (Some ''ver'') after_start))),
               after_callback)"
    by (simp add: after_callback_def after_start_def get_root_def get_callback_def
        stub_auth_env_def idle_def auth_call_def auth_emit_def falsy_def prod_eq_iff)
  have 4: "fst (fst (get_callback stub_auth_env (Some ''req'') (Some ''ver'') after_start))
            = Authenticated ''AT'' ''AS''"
    by (simp add: after_start_def get_root_def get_callback_def
        stub_auth_env_def idle_def auth_call_def auth_emit_def falsy_def)
  from session_survives_successful_callback [OF 1 2 3] 2 4 show ?thesis
    by blast
qed

text \<open>
  C3 as stated fails: after a start and a successful callback the session is still
  there, and the same callback succeeds a second time.
\<close>

theorem session_not_discarded_counterexample:
  "fst (fst (get_callback stub_auth_env (Some ''req'') (Some ''ver'') after_start))
     = Authenticated ''AT'' ''AS''
   \<and> requestTokens after_callback = Some \<lparr>oauth_token = ''req'', oauth_token_secret = ''sec''\<rparr>
   \<and> fst (fst (get_callback stub_auth_env (Some ''req'') (Some ''ver'') after_callback))
     = Authenticated ''AT'' ''AS''"
  by (simp add: after_callback_def after_start_def get_root_def get_callback_def
      stub_auth_env_def idle_def auth_call_def auth_emit_def CALLBACK_URL_def falsy_def)

section \<open>The effects of each step\<close>

lemma new_events_append: "trace s' = trace s @ evs \<Longrightarrow> new_events s s' = evs"
  by (simp add: new_events_def)

lemma subseq_sorted_wrt:
  "subseq xs ys \<Longrightarrow> sorted_wrt R ys \<Longrightarrow> sorted_wrt R xs"
proof (induction rule: list_emb.induct)
  case (list_emb_Nil ys)
  then show ?case by simp
next
  case (list_emb_Cons xs ys y)
  then show ?case by simp
next
  case (list_emb_Cons2 x y xs ys)
  then have "set xs \<subseteq> set ys"
    using list_emb_set [of "(=)" xs ys] by auto
  with list_emb_Cons2 show ?case by auto
qed

lemma side_events_obs:
  assumes "list_all side_event evs"
  shows "completions evs = []" and "ok_replies evs = []" and "write_attempts evs = []"
    and "ok_writes evs = []"
  using assms
  by (induction evs)
    (auto simp: side_event_def completions_def ok_replies_def write_attempts_def ok_writes_def
      split: event.splits)

lemma cursor_after_side: "list_all side_event evs \<Longrightarrow> cursor_after c evs = c"
  by (simp add: cursor_after_def side_events_obs)

lemma fetches_follow_cursor_side: "list_all side_event evs \<Longrightarrow> fetches_follow_cursor c evs"
proof (induction evs)
  case Nil
  then show ?case by simp
next
  case (Cons e evs)
  then have "side_event e" and "list_all side_event [e]" by simp_all
  then show ?case using Cons cursor_after_side [of "[e]" c]
    by (simp add: side_event_def split: event.splits)
qed

lemma cursor_after_append:
  "cursor_after c (a @ b) = cursor_after (cursor_after c a) b"
  by (simp add: cursor_after_def ok_replies_def)

lemma fetches_follow_cursor_append:
  "fetches_follow_cursor c (a @ b)
     \<longleftrightarrow> fetches_follow_cursor c a \<and> fetches_follow_cursor (cursor_after c a) b"
proof (induction a arbitrary: c)
  case Nil
  then show ?case by (simp add: cursor_after_def ok_replies_def)
next
  case (Cons e a)
  have "cursor_after c (e # a) = cursor_after (cursor_after c [e]) a"
    using cursor_after_append [of c "[e]" a] by simp
  moreover have "cursor_after c [e] = c" if "e = UserMentionTimeline u since ok" for u since ok
    using that by (simp add: cursor_after_def ok_replies_def)
  ultimately show ?case using Cons
    by (auto split: event.splits)
qed


lemma mention_events_obs:
  assumes "list_all mention_event evs"
  shows "log_errors evs = []" and "announcements evs = []"
  using assms
  by (induction evs)
    (auto simp: mention_event_def log_errors_def announcements_def split: event.splits)

lemma fetches_follow_cursor_mention:
  "list_all mention_event evs \<Longrightarrow> fetches_follow_cursor c evs"
  by (induction evs arbitrary: c) (auto simp: mention_event_def split: event.splits)

lemma fetchTwitterListProfiles_events:
  assumes "fetchTwitterListProfiles env s = (ps, s')"
  shows "\<exists>evs. trace s' = trace s @ evs \<and> list_all side_event evs
           \<and> cursor_file s' = cursor_file s"
  using assms
  by (auto simp: fetchTwitterListProfiles_def call_def emit_def side_event_def Let_def
      split: prod.splits option.splits)

lemma getMentions_events:
  assumes "getMentions env bt since s = (r, s')"
  shows "trace s' = trace s @ [UserMentionTimeline (userId bt) since (\<not> isl r)]"
    and "cursor_file s' = cursor_file s"
  using assms
  by (auto simp: getMentions_def call_def emit_def Let_def split: prod.splits option.splits)

lemma handleMention_events:
  assumes "handleMention env bt m profiles s = (r, s')"
  shows "\<exists>evs. trace s' = trace s @ evs \<and> list_all mention_event evs
           \<and> completions evs = [createAIMessage (cleanTweetText (tweet_text m)) profiles]
           \<and> ok_replies evs = (if isl r then [] else [tweet_id m])
           \<and> write_attempts evs = [] \<and> ok_writes evs = []
           \<and> cursor_file s' = cursor_file s"
proof -
  define q where "q = createAIMessage (cleanTweetText (tweet_text m)) profiles"
  obtain completion w1 where c: "chat_completions_create env q (world s) = (completion, w1)"
    by (cases "chat_completions_create env q (world s)")
  show ?thesis
  proof (cases completion)
    case None
    with c assms have "r = Inl OpenAIError"
      and "trace s' = trace s @ [ChatCompletion q False]" and "cursor_file s' = cursor_file s"
      by (auto simp: handleMention_def call_def emit_def q_def)
    then show ?thesis
      by (simp add: q_def mention_event_def completions_def ok_replies_def write_attempts_def
          ok_writes_def)
  next
    case (Some content)
    obtain posted w2 where p: "v2_tweet env content (Some (tweet_id m)) w1 = (posted, w2)"
      by (cases "v2_tweet env content (Some (tweet_id m)) w1")
    from c Some p assms have "r = (if posted then Inr () else Inl OpenAIError)"
      and "trace s' = trace s @ [ChatCompletion q True, PostTweet content (Some (tweet_id m)) posted]"
      and "cursor_file s' = cursor_file s"
      by (auto simp: handleMention_def call_def emit_def q_def Let_def split: if_splits)
    then show ?thesis
      by (simp add: q_def mention_event_def completions_def ok_replies_def write_attempts_def
          ok_writes_def)
  qed
qed

lemma saveLastMentionId_events:
  assumes "saveLastMentionId env i s = (r, s')"
  shows "\<exists>ok. trace s' = trace s @ [WriteFile LAST_MENTION_FILE i ok]
           \<and> cursor_file s' = (if ok then Some i else cursor_file s)"
proof -
  obtain written w1 where w: "fs_writeFile env LAST_MENTION_FILE i (world s) = (written, w1)"
    by (cases "fs_writeFile env LAST_MENTION_FILE i (world s)")
  with assms have "trace s' = trace s @ [WriteFile LAST_MENTION_FILE i written]"
    and "cursor_file s' = (if written then Some i else cursor_file s)"
    by (auto simp: saveLastMentionId_def call_def emit_def Let_def split: if_splits)
  then show ?thesis by blast
qed

lemma tweet_commit_step:
  assumes "v2_tweet env (commit_text c) None (world s) = (posted, w1)"
  shows "\<exists>s3 evs. tweet_commits env (c # cs) s = tweet_commits env cs s3
           \<and> trace s3 = trace s @ evs \<and> list_all side_event evs
           \<and> announcements evs = [commit_text c] \<and> cursor_file s3 = cursor_file s
           \<and> posts evs = [(commit_text c, None)]"
proof -
  define e where "e = (if posted
     then LogInfo (''Tweeted commit: \"'' @ ann_message c @ ''\"'')
     else LogError ''Error tweeting commit:'')"
  define s3 where
    "s3 = s\<lparr>world := w1, trace := trace s @ [PostTweet (commit_text c) None posted, e]\<rparr>"
  have "tweet_commits env (c # cs) s = tweet_commits env cs s3"
    using assms by (simp add: s3_def e_def call_def emit_def)
  moreover have "trace s3 = trace s @ [PostTweet (commit_text c) None posted, e]"
    and "cursor_file s3 = cursor_file s"
    by (simp_all add: s3_def)
  moreover have "list_all side_event [PostTweet (commit_text c) None posted, e]"
    and "announcements [PostTweet (commit_text c) None posted, e] = [commit_text c]"
    and "posts [PostTweet (commit_text c) None posted, e] = [(commit_text c, None)]"
    by (simp_all add: e_def side_event_def announcements_def posts_def)
  ultimately show ?thesis by blast
qed

lemma tweet_commits_events:
  "\<exists>evs. trace (tweet_commits env cs s) = trace s @ evs \<and> list_all side_event evs
         \<and> announcements evs = map commit_text cs
         \<and> cursor_file (tweet_commits env cs s) = cursor_file s
         \<and> posts evs = map (\<lambda>c. (commit_text c, None)) cs"
proof (induction cs arbitrary: s)
  case Nil
  then show ?case by (simp add: announcements_def posts_def)
next
  case (Cons c cs)
  obtain posted w1 where "v2_tweet env (commit_text c) None (world s) = (posted, w1)"
    by (cases "v2_tweet env (commit_text c) None (world s)")
  from tweet_commit_step [OF this, of cs] obtain s3 e1 where
    step: "tweet_commits env (c # cs) s = tweet_commits env cs s3"
    and e1: "trace s3 = trace s @ e1" "list_all side_event e1"
      "announcements e1 = [commit_text c]" "cursor_file s3 = cursor_file s"
      "posts e1 = [(commit_text c, None)]"
    by blast
  from Cons.IH [of s3] obtain e2 where e2: "trace (tweet_commits env cs s3) = trace s3 @ e2"
      "list_all side_event e2" "announcements e2 = map commit_text cs"
      "cursor_file (tweet_commits env cs s3) = cursor_file s3"
      "posts e2 = map (\<lambda>c. (commit_text c, None)) cs"
    by blast
  have "trace (tweet_commits env (c # cs) s) = trace s @ (e1 @ e2)"
    using step e1 e2 by simp
  moreover have "list_all side_event (e1 @ e2)" using e1 e2 by simp
  moreover have "announcements (e1 @ e2) = map commit_text (c # cs)"
    using e1(3) e2(3) by (simp add: announcements_def)
  moreover have "cursor_file (tweet_commits env (c # cs) s) = cursor_file s"
    using step e1 e2 by simp
  moreover have "posts (e1 @ e2)
                   = map (\<lambda>c. (commit_text c, None)) (c # cs)"
    using e1(5) e2(5) by (simp add: posts_def)
  ultimately show ?case by blast
qed

lemma fetchGitHubCommits_events:
  assumes "fetchGitHubCommits env s = (cs, s')"
  shows "\<exists>evs. trace s' = trace s @ evs \<and> list_all side_event evs
           \<and> announcements evs = [] \<and> posts evs = [] \<and> cursor_file s' = cursor_file s"
proof -
  obtain response w1 where r: "axios_get env events_url (world s) = (response, w1)"
    by (cases "axios_get env events_url (world s)")
  have "trace s' = trace s @ [HttpGet events_url (response \<noteq> None)]
        \<or> trace s' = trace s @ [HttpGet events_url (response \<noteq> None),
                                 LogError ''Error fetching GitHub commits:'']"
    and "cursor_file s' = cursor_file s"
    using assms r
    by (auto simp: fetchGitHubCommits_def call_def emit_def Let_def split: option.splits)
  then show ?thesis
    by (auto simp: side_event_def announcements_def posts_def)
qed

lemma tweetGitHubCommits_events:
  "\<exists>evs. trace (tweetGitHubCommits env bt s) = trace s @ evs \<and> list_all side_event evs
         \<and> cursor_file (tweetGitHubCommits env bt s) = cursor_file s"
proof -
  obtain cs s1 where f: "fetchGitHubCommits env s = (cs, s1)"
    by (cases "fetchGitHubCommits env s")
  from fetchGitHubCommits_events [OF f] obtain e1 where
    e1: "trace s1 = trace s @ e1" "list_all side_event e1" "cursor_file s1 = cursor_file s"
    by blast
  from tweet_commits_events [of env cs s1] obtain e2 where
    e2: "trace (tweet_commits env cs s1) = trace s1 @ e2" "list_all side_event e2"
      "cursor_file (tweet_commits env cs s1) = cursor_file s1"
    by blast
  have "tweetGitHubCommits env bt s = tweet_commits env cs s1"
    by (simp add: tweetGitHubCommits_def f)
  with e1 e2 have "trace (tweetGitHubCommits env bt s) = trace s @ (e1 @ e2)"
    "list_all side_event (e1 @ e2)"
    "cursor_file (tweetGitHubCommits env bt s) = cursor_file s"
    by simp_all
  then show ?thesis by blast
qed

lemma process_mentions_events:
  assumes "process_mentions env profiles ms (bt, s) = (bt', s')"
  shows "\<exists>evs. trace s' = trace s @ evs \<and> list_all mention_event evs
           \<and> completions evs
               = map (\<lambda>m. createAIMessage (cleanTweetText (tweet_text m)) profiles) ms
           \<and> subseq (ok_replies evs) (map tweet_id ms)
           \<and> write_attempts evs = ok_replies evs
           \<and> bt' = bt\<lparr>lastMentionId := cursor_after (lastMentionId bt) evs\<rparr>
           \<and> cursor_file s'
               = (if ok_writes evs = [] then cursor_file s else Some (last (ok_writes evs)))"
  using assms
proof (induction ms arbitrary: bt s)
  case Nil
  then show ?case
    by (simp add: completions_def ok_replies_def write_attempts_def ok_writes_def
        cursor_after_def)
next
  case (Cons m ms)
  let ?q = "\<lambda>m. createAIMessage (cleanTweetText (tweet_text m)) profiles"
  obtain r s1 where h: "handleMention env bt m profiles s = (r, s1)"
    by (cases "handleMention env bt m profiles s")
  from handleMention_events [OF h] obtain e1 where
    e1: "trace s1 = trace s @ e1" "list_all mention_event e1" "completions e1 = [?q m]"
      "ok_replies e1 = (if isl r then [] else [tweet_id m])"
      "write_attempts e1 = []" "ok_writes e1 = []" "cursor_file s1 = cursor_file s"
    by blast
  show ?case
  proof (cases r)
    case (Inl err)
    with h Cons.prems have "process_mentions env profiles ms (bt, s1) = (bt', s')"
      by simp
    from Cons.IH [OF this] obtain e3 where
      e3: "trace s' = trace s1 @ e3" "list_all mention_event e3"
        "completions e3 = map ?q ms" "subseq (ok_replies e3) (map tweet_id ms)"
        "write_attempts e3 = ok_replies e3"
        "bt' = bt\<lparr>lastMentionId := cursor_after (lastMentionId bt) e3\<rparr>"
        "cursor_file s' = (if ok_writes e3 = [] then cursor_file s1 else Some (last (ok_writes e3)))"
      by blast
    have r1: "ok_replies e1 = []" using e1(4) Inl by simp
    have "trace s' = trace s @ (e1 @ e3)" using e1 e3 by simp
    moreover have "list_all mention_event (e1 @ e3)" using e1 e3 by simp
    moreover have "completions (e1 @ e3) = map ?q (m # ms)"
      using e1(3) e3(3) by (simp add: completions_def)
    moreover have ok: "ok_replies (e1 @ e3) = ok_replies e3"
      using r1 by (simp add: ok_replies_def)
    moreover have "subseq (ok_replies e3) (map tweet_id (m # ms))"
      using e3(4) by (simp add: list_emb_Cons)
    moreover have "write_attempts (e1 @ e3) = ok_replies e3"
      using e1(5) e3(5) by (simp add: write_attempts_def)
    moreover have "cursor_after (lastMentionId bt) (e1 @ e3) = cursor_after (lastMentionId bt) e3"
      using ok by (simp add: cursor_after_def)
    moreover have "ok_writes (e1 @ e3) = ok_writes e3"
      using e1(6) by (simp add: ok_writes_def)
    ultimately show ?thesis using e3(6,7) e1(7) by (intro exI [of _ "e1 @ e3"]) simp
  next
    case (Inr u)
    obtain r2 s2 where sv: "saveLastMentionId env (tweet_id m) s1 = (r2, s2)"
      by (cases "saveLastMentionId env (tweet_id m) s1")
    from saveLastMentionId_events [OF sv] obtain ok where
      e2: "trace s2 = trace s1 @ [WriteFile LAST_MENTION_FILE (tweet_id m) ok]"
        "cursor_file s2 = (if ok then Some (tweet_id m) else cursor_file s1)"
      by blast
    let ?e2 = "[WriteFile LAST_MENTION_FILE (tweet_id m) ok]"
    let ?bt2 = "bt\<lparr>lastMentionId := Some (tweet_id m)\<rparr>"
    from Inr h sv Cons.prems have "process_mentions env profiles ms (?bt2, s2) = (bt', s')"
      by simp
    from Cons.IH [OF this] obtain e3 where
      e3: "trace s' = trace s2 @ e3" "list_all mention_event e3"
        "completions e3 = map ?q ms" "subseq (ok_replies e3) (map tweet_id ms)"
        "write_attempts e3 = ok_replies e3"
        "bt' = ?bt2\<lparr>lastMentionId := cursor_after (lastMentionId ?bt2) e3\<rparr>"
        "cursor_file s' = (if ok_writes e3 = [] then cursor_file s2 else Some (last (ok_writes e3)))"
      by blast
    let ?evs = "e1 @ ?e2 @ e3"
    have r1: "ok_replies e1 = [tweet_id m]" using e1(4) Inr by simp
    have "trace s' = trace s @ ?evs" using e1 e2 e3 by simp
    moreover have "list_all mention_event ?evs" using e1 e3 by (simp add: mention_event_def)
    moreover have "completions ?evs = map ?q (m # ms)"
      using e1(3) e3(3) by (simp add: completions_def)
    moreover have ok: "ok_replies ?evs = tweet_id m # ok_replies e3"
      using r1 by (simp add: ok_replies_def)
    moreover have "subseq (tweet_id m # ok_replies e3) (map tweet_id (m # ms))"
      using e3(4) by simp
    moreover have "write_attempts ?evs = tweet_id m # ok_replies e3"
      using e1(5) e3(5) by (simp add: write_attempts_def)
    moreover have "cursor_after (lastMentionId bt) ?evs = cursor_after (Some (tweet_id m)) e3"
      using ok by (simp add: cursor_after_def)
    moreover have "ok_writes ?evs = (if ok then [tweet_id m] else []) @ ok_writes e3"
      using e1(6) by (simp add: ok_writes_def)
    ultimately show ?thesis using e3(6,7) e2(2) e1(7) by (intro exI [of _ ?evs]) simp
  qed
qed

lemma getMentions_result:
  assumes "getMentions env bt since s = (Inr ms, s')"
  shows "ms = [] \<or> fst (v2_userMentionTimeline env (userId bt) since (world s)) = Some (Some ms)"
  using assms
  by (auto simp: getMentions_def call_def emit_def Let_def split: prod.splits option.splits)

lemma runBot_iteration_events:
  assumes "fetchTwitterListProfiles env s = (profiles, s1)"
    and "getMentions env bt (lastMentionId bt) s1 = (fetched, s2)"
    and "runBot_iteration env interval (bt, s) = (bt', s')"
  shows "\<exists>e0 eM eG.
           trace s' = trace s @ e0
              @ [UserMentionTimeline (userId bt) (lastMentionId bt) (\<not> isl fetched)] @ eM @ eG
           \<and> list_all side_event e0 \<and> list_all mention_event eM \<and> list_all side_event eG
           \<and> completions eM
               = map (\<lambda>m. createAIMessage (cleanTweetText (tweet_text m)) profiles)
                   (case fetched of Inr ms \<Rightarrow> ms | Inl _ \<Rightarrow> [])
           \<and> subseq (ok_replies eM) (map tweet_id (case fetched of Inr ms \<Rightarrow> ms | Inl _ \<Rightarrow> []))
           \<and> write_attempts eM = ok_replies eM
           \<and> bt' = bt\<lparr>lastMentionId := cursor_after (lastMentionId bt) eM\<rparr>
           \<and> cursor_file s'
               = (if ok_writes eM = [] then cursor_file s else Some (last (ok_writes eM)))"
proof -
  let ?ms = "case fetched of Inr ms \<Rightarrow> ms | Inl _ \<Rightarrow> []"
  let ?q = "\<lambda>m. createAIMessage (cleanTweetText (tweet_text m)) profiles"
  obtain bt3 s3 where pm: "process_mentions env profiles ?ms (bt, s2) = (bt3, s3)"
    by (cases "process_mentions env profiles ?ms (bt, s2)")
  have it: "runBot_iteration env interval (bt, s)
              = (bt3, delay (interval * 1000) (tweetGitHubCommits env bt3 s3))"
    using assms(1,2) pm by (cases fetched) (simp_all add: runBot_iteration_def)
  with assms(3) have bt3: "bt' = bt3"
    and s': "s' = delay (interval * 1000) (tweetGitHubCommits env bt3 s3)"
    by auto
  from fetchTwitterListProfiles_events [OF assms(1)] obtain e0 where
    e0: "trace s1 = trace s @ e0" "list_all side_event e0" "cursor_file s1 = cursor_file s"
    by blast
  note f = getMentions_events [OF assms(2)]
  from process_mentions_events [OF pm] obtain eM where
    eM: "trace s3 = trace s2 @ eM" "list_all mention_event eM"
      "completions eM = map ?q ?ms" "subseq (ok_replies eM) (map tweet_id ?ms)"
      "write_attempts eM = ok_replies eM"
      "bt3 = bt\<lparr>lastMentionId := cursor_after (lastMentionId bt) eM\<rparr>"
      "cursor_file s3 = (if ok_writes eM = [] then cursor_file s2 else Some (last (ok_writes eM)))"
    by blast
  from tweetGitHubCommits_events [of env bt3 s3] obtain e4 where
    e4: "trace (tweetGitHubCommits env bt3 s3) = trace s3 @ e4" "list_all side_event e4"
      "cursor_file (tweetGitHubCommits env bt3 s3) = cursor_file s3"
    by blast
  let ?eG = "e4 @ [Delay (interval * 1000)]"
  have "trace s' = trace s @ e0
          @ [UserMentionTimeline (userId bt) (lastMentionId bt) (\<not> isl fetched)] @ eM @ ?eG"
    using s' e0(1) f(1) eM(1) e4(1) by (simp add: delay_def emit_def)
  moreover have "list_all side_event ?eG"
    using e4(2) by (simp add: side_event_def)
  moreover have "cursor_file s'
      = (if ok_writes eM = [] then cursor_file s else Some (last (ok_writes eM)))"
    using s' e4(3) eM(7) f(2) e0(3) by (simp add: delay_def emit_def)
  ultimately show ?thesis
    using e0(2) eM(2,3,4,5,6) bt3 by blast
qed

section \<open>The example runs\<close>

lemmas run_defs = runBot_iteration_def fetchTwitterListProfiles_def getMentions_def
  handleMention_def saveLastMentionId_def tweetGitHubCommits_def fetchGitHubCommits_def
  delay_def call_def emit_def Let_def bot0_def state0_def quiet_env_def request_def
  list_fetched_def feed_fetched_def mention_def

lemma oldest_first_iteration:
  "runBot_iteration oldest_first_env 91 (bot0, state0)
     = (bot0\<lparr>lastMentionId := Some ''5''\<rparr>,
        \<lparr>world = (), cursor_file = Some ''5'',
         trace = [list_fetched, UserMentionTimeline ''42'' None True,
                  ChatCompletion (request ''@vangogh hello'') True,
                  PostTweet ''No ears, no problem.'' (Some ''3'') True,
                  WriteFile LAST_MENTION_FILE ''3'' True,
                  ChatCompletion (request ''@vangogh hi'') True,
                  PostTweet ''No ears, no problem.'' (Some ''5'') True,
                  WriteFile LAST_MENTION_FILE ''5'' True,
                  feed_fetched, Delay 91000]\<rparr>)"
  by (simp add: run_defs oldest_first_env_def)

lemma newest_first_iteration:
  "runBot_iteration newest_first_env 91 (bot0, state0)
     = (bot0\<lparr>lastMentionId := Some ''3''\<rparr>,
        \<lparr>world = (), cursor_file = Some ''3'',
         trace = [list_fetched, UserMentionTimeline ''42'' None True,
                  ChatCompletion (request ''@vangogh hi'') True,
                  PostTweet ''No ears, no problem.'' (Some ''5'') True,
                  WriteFile LAST_MENTION_FILE ''5'' True,
                  ChatCompletion (request ''@vangogh hello'') True,
                  PostTweet ''No ears, no problem.'' (Some ''3'') True,
                  WriteFile LAST_MENTION_FILE ''3'' True,
                  feed_fetched, Delay 91000]\<rparr>)"
  by (simp add: run_defs newest_first_env_def)

lemma fetch_fails_iteration:
  "runBot_iteration fetch_fails_env 91 (bot0, state0)
     = (bot0,
        \<lparr>world = (), cursor_file = None,
         trace = [list_fetched, UserMentionTimeline ''42'' None False,
                  feed_fetched, Delay 91000]\<rparr>)"
  by (simp add: run_defs fetch_fails_env_def)

lemma reply_fails_iteration:
  "runBot_iteration reply_fails_env 91 (bot0, state0)
     = (bot0\<lparr>lastMentionId := Some ''5''\<rparr>,
        \<lparr>world = (), cursor_file = Some ''5'',
         trace = [list_fetched, UserMentionTimeline ''42'' None True,
                  ChatCompletion (request ''@vangogh hello'') True,
                  PostTweet ''No ears, no problem.'' (Some ''3'') False,
                  ChatCompletion (request ''@vangogh hi'') True,
                  PostTweet ''No ears, no problem.'' (Some ''5'') True,
                  WriteFile LAST_MENTION_FILE ''5'' True,
                  feed_fetched, Delay 91000]\<rparr>)"
  by (simp add: run_defs reply_fails_env_def oldest_first_env_def)

section \<open>Properties of one iteration\<close>

lemma sorted_wrt_last_Max:
  fixes key :: "'a \<Rightarrow> 'k::linorder"
  assumes "sorted_wrt (\<lambda>x y. key x < key y) xs" and "xs \<noteq> []"
  shows "key (last xs) = Max (key ` set xs)"
proof -
  obtain ys z where xs: "xs = ys @ [z]"
    using assms(2) by (metis append_butlast_last_id)
  have "\<forall>y \<in> set ys. key y < key z"
    using assms(1) by (simp add: xs sorted_wrt_append)
  then have "\<forall>k \<in> key ` set xs. k \<le> key z"
    by (auto simp: xs less_imp_le)
  moreover have "key z \<in> key ` set xs" by (simp add: xs)
  ultimately have "Max (key ` set xs) = key z"
    by (intro Max_eqI) auto
  then show ?thesis by (simp add: xs)
qed

lemma obs_append:
  "completions (a @ b) = completions a @ completions b"
  "ok_replies (a @ b) = ok_replies a @ ok_replies b"
  "write_attempts (a @ b) = write_attempts a @ write_attempts b"
  "ok_writes (a @ b) = ok_writes a @ ok_writes b"
  "announcements (a @ b) = announcements a @ announcements b"
  "log_errors (a @ b) = log_errors a @ log_errors b"
  by (simp_all add: completions_def ok_replies_def write_attempts_def ok_writes_def
      announcements_def log_errors_def)

lemma obs_fetch:
  "completions (UserMentionTimeline u c ok # evs) = completions evs"
  "ok_replies (UserMentionTimeline u c ok # evs) = ok_replies evs"
  "write_attempts (UserMentionTimeline u c ok # evs) = write_attempts evs"
  "ok_writes (UserMentionTimeline u c ok # evs) = ok_writes evs"
  by (simp_all add: completions_def ok_replies_def write_attempts_def ok_writes_def)

lemma ok_writes_subseq: "subseq (ok_writes evs) (write_attempts evs)"
proof (induction evs)
  case Nil
  then show ?case by (simp add: ok_writes_def write_attempts_def)
next
  case (Cons e evs)
  have "ok_writes (e # evs) = ok_writes [e] @ ok_writes evs"
    and "write_attempts (e # evs) = write_attempts [e] @ write_attempts evs"
    using obs_append(3,4) [of "[e]" evs] by simp_all
  moreover have "subseq (ok_writes [e]) (write_attempts [e])"
    by (cases e) (simp_all add: ok_writes_def write_attempts_def split: bool.splits)
  ultimately show ?case using Cons by (simp add: list_emb_append_mono)
qed

lemma iteration_observations:
  assumes "fetchTwitterListProfiles env s = (profiles, s1)"
    and "getMentions env bt (lastMentionId bt) s1 = (fetched, s2)"
    and "runBot_iteration env interval (bt, s) = (bt', s')"
  shows "\<exists>e0 eM eG.
           new_events s s' = e0
              @ [UserMentionTimeline (userId bt) (lastMentionId bt) (\<not> isl fetched)] @ eM @ eG
           \<and> list_all side_event e0 \<and> list_all mention_event eM \<and> list_all side_event eG
           \<and> completions (new_events s s')
               = map (\<lambda>m. createAIMessage (cleanTweetText (tweet_text m)) profiles)
                   (case fetched of Inr ms \<Rightarrow> ms | Inl _ \<Rightarrow> [])
           \<and> ok_replies (new_events s s') = ok_replies eM
           \<and> ok_writes (new_events s s') = ok_writes eM
           \<and> subseq (ok_replies (new_events s s'))
                (map tweet_id (case fetched of Inr ms \<Rightarrow> ms | Inl _ \<Rightarrow> []))
           \<and> write_attempts (new_events s s') = ok_replies (new_events s s')
           \<and> bt' = bt\<lparr>lastMentionId := cursor_after (lastMentionId bt) (new_events s s')\<rparr>
           \<and> cursor_file s'
               = (if ok_writes (new_events s s') = [] then cursor_file s
                  else Some (last (ok_writes (new_events s s'))))"
proof -
  let ?F = "[UserMentionTimeline (userId bt) (lastMentionId bt) (\<not> isl fetched)]"
  from runBot_iteration_events [OF assms] obtain e0 eM eG where
    tr: "trace s' = trace s @ e0 @ ?F @ eM @ eG"
    and side: "list_all side_event e0" "list_all mention_event eM" "list_all side_event eG"
    and c: "completions eM
               = map (\<lambda>m. createAIMessage (cleanTweetText (tweet_text m)) profiles)
                   (case fetched of Inr ms \<Rightarrow> ms | Inl _ \<Rightarrow> [])"
    and sub: "subseq (ok_replies eM) (map tweet_id (case fetched of Inr ms \<Rightarrow> ms | Inl _ \<Rightarrow> []))"
    and w: "write_attempts eM = ok_replies eM"
    and b: "bt' = bt\<lparr>lastMentionId := cursor_after (lastMentionId bt) eM\<rparr>"
    and f: "cursor_file s' = (if ok_writes eM = [] then cursor_file s else Some (last (ok_writes eM)))"
    by blast
  have ne: "new_events s s' = e0 @ ?F @ eM @ eG"
    using tr by (rule new_events_append)
  note o0 = side_events_obs [OF side(1)] and oG = side_events_obs [OF side(3)]
  have 1: "completions (new_events s s') = completions eM"
    by (simp add: ne obs_append obs_fetch o0 oG)
  have 2: "ok_replies (new_events s s') = ok_replies eM"
    by (simp add: ne obs_append obs_fetch o0 oG)
  have 3: "write_attempts (new_events s s') = write_attempts eM"
    by (simp add: ne obs_append obs_fetch o0 oG)
  have 4: "ok_writes (new_events s s') = ok_writes eM"
    by (simp add: ne obs_append obs_fetch o0 oG)
  have 5: "cursor_after (lastMentionId bt) (new_events s s') = cursor_after (lastMentionId bt) eM"
    using 2 by (simp add: cursor_after_def)
  show ?thesis
    using ne side c sub w b f 1 2 3 4 5 by (intro exI [of _ e0] exI [of _ eM] exI [of _ eG]) simp
qed

text \<open>
  C1 (amended). After one iteration the in-memory cursor is the id of the last mention,
  in the order the fetch returned them, whose reply was generated and posted, and is the
  starting cursor when no mention succeeded or the fetch failed. That id is the maximum
  among the mentions that succeeded when the fetched list is in ascending order of id.
  The file is written once for each such mention, in turn: it ends with the last of these
  writes that succeeded, is unchanged when none did, and agrees with the in-memory
  cursor when all of them succeeded.
\<close>

theorem iteration_cursor:
  fixes key :: "string \<Rightarrow> 'k::linorder"
  assumes "fetchTwitterListProfiles env s = (profiles, s1)"
    and "getMentions env bt (lastMentionId bt) s1 = (fetched, s2)"
    and "runBot_iteration env interval (bt, s) = (bt', s')"
  shows "lastMentionId bt'
           = (if ok_replies (new_events s s') = [] then lastMentionId bt
              else Some (last (ok_replies (new_events s s'))))
       \<and> subseq (ok_replies (new_events s s'))
           (map tweet_id (case fetched of Inr M \<Rightarrow> M | Inl _ \<Rightarrow> []))
       \<and> (isl fetched \<longrightarrow> lastMentionId bt' = lastMentionId bt \<and> cursor_file s' = cursor_file s)
       \<and> (\<forall>M. fetched = Inr M \<and> ascending key M \<and> ok_replies (new_events s s') \<noteq> [] \<longrightarrow>
             key (last (ok_replies (new_events s s')))
               = Max (key ` set (ok_replies (new_events s s'))))
       \<and> write_attempts (new_events s s') = ok_replies (new_events s s')
       \<and> cursor_file s'
           = (if ok_writes (new_events s s') = [] then cursor_file s
              else Some (last (ok_writes (new_events s s'))))
       \<and> (ok_writes (new_events s s') = write_attempts (new_events s s')
            \<and> ok_replies (new_events s s') \<noteq> [] \<longrightarrow> cursor_file s' = lastMentionId bt')"
proof -
  let ?ok = "ok_replies (new_events s s')"
  from iteration_observations [OF assms] obtain eM where
    m: "list_all mention_event eM" "?ok = ok_replies eM"
      "ok_writes (new_events s s') = ok_writes eM"
    and sub: "subseq ?ok (map tweet_id (case fetched of Inr M \<Rightarrow> M | Inl _ \<Rightarrow> []))"
    and w: "write_attempts (new_events s s') = ?ok"
    and b: "bt' = bt\<lparr>lastMentionId := cursor_after (lastMentionId bt) (new_events s s')\<rparr>"
    and f: "cursor_file s' = (if ok_writes (new_events s s') = [] then cursor_file s
                              else Some (last (ok_writes (new_events s s'))))"
    by blast
  have c: "lastMentionId bt' = (if ?ok = [] then lastMentionId bt else Some (last ?ok))"
    using b by (simp add: cursor_after_def)
  have failed: "isl fetched \<longrightarrow> lastMentionId bt' = lastMentionId bt \<and> cursor_file s' = cursor_file s"
  proof
    assume "isl fetched"
    then have "?ok = []" using sub by (cases fetched) simp_all
    then have "write_attempts (new_events s s') = []" using w by simp
    then have "ok_writes (new_events s s') = []"
      using ok_writes_subseq [of "new_events s s'"] by simp
    with c f \<open>?ok = []\<close> show "lastMentionId bt' = lastMentionId bt \<and> cursor_file s' = cursor_file s"
      by simp
  qed
  have mx: "\<forall>M. fetched = Inr M \<and> ascending key M \<and> ?ok \<noteq> [] \<longrightarrow>
             key (last ?ok) = Max (key ` set ?ok)"
  proof (intro allI impI)
    fix M assume h: "fetched = Inr M \<and> ascending key M \<and> ?ok \<noteq> []"
    then have "subseq ?ok (map tweet_id M)" using sub by simp
    moreover have "sorted_wrt (\<lambda>x y. key x < key y) (map tweet_id M)"
      using h by (simp add: ascending_def)
    ultimately have "sorted_wrt (\<lambda>x y. key x < key y) ?ok"
      by (rule subseq_sorted_wrt)
    with h show "key (last ?ok) = Max (key ` set ?ok)"
      by (simp add: sorted_wrt_last_Max)
  qed
  from c sub failed mx w f show ?thesis by simp
qed

lemma id_value_examples: "id_value ''3'' = 3" "id_value ''5'' = 5"
  by (simp_all add: id_value_def)

lemma new_events_state0: "new_events state0 s = trace s"
  by (simp add: new_events_def state0_def)

lemma start_values: "lastMentionId bot0 = None" "cursor_file state0 = None"
  by (simp_all add: bot0_def state0_def)

lemmas obs_defs = completions_def ok_replies_def write_attempts_def ok_writes_def
  announcements_def log_errors_def list_fetched_def feed_fetched_def

theorem iteration_cursor_witness:
  "ascending id_value [mention ''3'' ''@vangogh hello'', mention ''5'' ''@vangogh hi'']
   \<and> ok_replies (new_events state0 (snd (runBot_iteration oldest_first_env 91 (bot0, state0))))
       = [''3'', ''5'']
   \<and> ok_writes (new_events state0 (snd (runBot_iteration oldest_first_env 91 (bot0, state0))))
       = [''3'', ''5'']
   \<and> lastMentionId (fst (runBot_iteration oldest_first_env 91 (bot0, state0))) = Some ''5''
   \<and> id_value ''5'' = Max (id_value ` set [''3'', ''5''])
   \<and> cursor_file (snd (runBot_iteration oldest_first_env 91 (bot0, state0))) = Some ''5''
   \<and> isl (fst (getMentions fetch_fails_env bot0 (lastMentionId bot0)
                 (snd (fetchTwitterListProfiles fetch_fails_env state0))))
   \<and> lastMentionId (fst (runBot_iteration fetch_fails_env 91 (bot0, state0))) = lastMentionId bot0
   \<and> cursor_file (snd (runBot_iteration fetch_fails_env 91 (bot0, state0))) = cursor_file state0"
proof -
  let ?M = "[mention ''3'' ''@vangogh hello'', mention ''5'' ''@vangogh hi'']"
  have p: "fetchTwitterListProfiles env state0
             = ([''alice''], snd (fetchTwitterListProfiles env state0))"
    if "v2_listMembers env = v2_listMembers quiet_env" for env :: "unit env"
    using that by (simp add: fetchTwitterListProfiles_def call_def emit_def quiet_env_def
        state0_def Let_def)
  have g1: "getMentions oldest_first_env bot0 (lastMentionId bot0)
              (snd (fetchTwitterListProfiles oldest_first_env state0))
            = (Inr ?M, snd (getMentions oldest_first_env bot0 (lastMentionId bot0)
                 (snd (fetchTwitterListProfiles oldest_first_env state0))))"
    by (simp add: run_defs oldest_first_env_def)
  have g2: "getMentions fetch_fails_env bot0 (lastMentionId bot0)
              (snd (fetchTwitterListProfiles fetch_fails_env state0))
            = (Inl TwitterAPIError, snd (getMentions fetch_fails_env bot0 (lastMentionId bot0)
                 (snd (fetchTwitterListProfiles fetch_fails_env state0))))"
    by (simp add: run_defs fetch_fails_env_def)
  have asc: "ascending id_value ?M"
    by (simp add: ascending_def mention_def id_value_examples)
  note a = iteration_cursor [OF p g1 oldest_first_iteration, of id_value]
  note b = iteration_cursor [OF p g2 fetch_fails_iteration, of id_value]
  have a': "v2_listMembers oldest_first_env = v2_listMembers quiet_env"
    and b': "v2_listMembers fetch_fails_env = v2_listMembers quiet_env"
    by (simp_all add: oldest_first_env_def fetch_fails_env_def)
  have failed: "isl (fst (getMentions fetch_fails_env bot0 (lastMentionId bot0)
                 (snd (fetchTwitterListProfiles fetch_fails_env state0))))"
    by (subst g2) simp
  from a [OF a'] b [OF b'] asc failed show ?thesis
    by (simp add: oldest_first_iteration fetch_fails_iteration new_events_state0 obs_defs
        id_value_examples start_values)
qed

text \<open>
  C1 as stated fails: the fetch answers the mentions 5 and 3 in this order, both are
  replied to, and the cursor, in memory and in the file, ends at 3, not at the maximum.
\<close>

theorem cursor_not_maximum_counterexample:
  "ok_replies (new_events state0 (snd (runBot_iteration newest_first_env 91 (bot0, state0))))
     = [''5'', ''3'']
   \<and> lastMentionId (fst (runBot_iteration newest_first_env 91 (bot0, state0))) = Some ''3''
   \<and> cursor_file (snd (runBot_iteration newest_first_env 91 (bot0, state0))) = Some ''3''
   \<and> id_value ''3'' < id_value ''5''"
  by (simp add: newest_first_iteration new_events_state0 obs_defs id_value_examples)

text \<open>
  C4 (amended). Within one iteration the mentions of the fetched batch are processed in
  the order in which the fetch returned them: one completion request for each mention,
  in that order, and the replies posted in that order. When the batch is in strictly
  ascending order of id, so are the replies posted.
\<close>

theorem mentions_processed_in_fetch_order:
  fixes key :: "string \<Rightarrow> 'k::linorder"
  assumes "fetchTwitterListProfiles env s = (profiles, s1)"
    and "getMentions env bt (lastMentionId bt) s1 = (fetched, s2)"
    and "runBot_iteration env interval (bt, s) = (bt', s')"
  shows "completions (new_events s s')
           = map (\<lambda>m. createAIMessage (cleanTweetText (tweet_text m)) profiles)
               (case fetched of Inr M \<Rightarrow> M | Inl _ \<Rightarrow> [])
       \<and> subseq (ok_replies (new_events s s'))
           (map tweet_id (case fetched of Inr M \<Rightarrow> M | Inl _ \<Rightarrow> []))
       \<and> (\<forall>M. fetched = Inr M \<and> ascending key M \<longrightarrow>
             sorted_wrt (\<lambda>x y. key x < key y) (ok_replies (new_events s s')))"
proof -
  let ?ok = "ok_replies (new_events s s')"
  from iteration_observations [OF assms] have
    c: "completions (new_events s s')
           = map (\<lambda>m. createAIMessage (cleanTweetText (tweet_text m)) profiles)
               (case fetched of Inr M \<Rightarrow> M | Inl _ \<Rightarrow> [])"
    and sub: "subseq ?ok (map tweet_id (case fetched of Inr M \<Rightarrow> M | Inl _ \<Rightarrow> []))"
    by blast+
  have "\<forall>M. fetched = Inr M \<and> ascending key M \<longrightarrow> sorted_wrt (\<lambda>x y. key x < key y) ?ok"
  proof (intro allI impI)
    fix M assume h: "fetched = Inr M \<and> ascending key M"
    then have "subseq ?ok (map tweet_id M)" using sub by simp
    moreover have "sorted_wrt (\<lambda>x y. key x < key y) (map tweet_id M)"
      using h by (simp add: ascending_def)
    ultimately show "sorted_wrt (\<lambda>x y. key x < key y) ?ok"
      by (rule subseq_sorted_wrt)
  qed
  with c sub show ?thesis by simp
qed

theorem mentions_processed_in_fetch_order_witness:
  "ascending id_value [mention ''3'' ''@vangogh hello'', mention ''5'' ''@vangogh hi'']
   \<and> completions (new_events state0 (snd (runBot_iteration reply_fails_env 91 (bot0, state0))))
       = [request ''@vangogh hello'', request ''@vangogh hi'']
   \<and> ok_replies (new_events state0 (snd (runBot_iteration reply_fails_env 91 (bot0, state0))))
       = [''5'']
   \<and> sorted_wrt (\<lambda>x y. id_value x < id_value y)
       (ok_replies (new_events state0 (snd (runBot_iteration reply_fails_env 91 (bot0, state0)))))"
proof -
  let ?M = "[mention ''3'' ''@vangogh hello'', mention ''5'' ''@vangogh hi'']"
  have p: "fetchTwitterListProfiles reply_fails_env state0
             = ([''alice''], snd (fetchTwitterListProfiles reply_fails_env state0))"
    by (simp add: run_defs reply_fails_env_def oldest_first_env_def)
  have g: "getMentions reply_fails_env bot0 (lastMentionId bot0)
              (snd (fetchTwitterListProfiles reply_fails_env state0))
            = (Inr ?M, snd (getMentions reply_fails_env bot0 (lastMentionId bot0)
                 (snd (fetchTwitterListProfiles reply_fails_env state0))))"
    by (simp add: run_defs reply_fails_env_def oldest_first_env_def)
  have asc: "ascending id_value ?M"
    by (simp add: ascending_def mention_def id_value_examples)
  from mentions_processed_in_fetch_order [OF p g reply_fails_iteration, of id_value] asc
  show ?thesis
    by (simp add: reply_fails_iteration new_events_state0 obs_defs request_def mention_def)
qed

text \<open>
  C4 as stated fails: mention 3 has the smaller id, and the completion request and the
  reply for mention 5 come first.
\<close>

theorem not_ascending_counterexample:
  "id_value ''3'' < id_value ''5''
   \<and> trace (snd (runBot_iteration newest_first_env 91 (bot0, state0)))
     = [list_fetched, UserMentionTimeline ''42'' None True,
        ChatCompletion (request ''@vangogh hi'') True,
        PostTweet ''No ears, no problem.'' (Some ''5'') True,
        WriteFile LAST_MENTION_FILE ''5'' True,
        ChatCompletion (request ''@vangogh hello'') True,
        PostTweet ''No ears, no problem.'' (Some ''3'') True,
        WriteFile LAST_MENTION_FILE ''3'' True,
        feed_fetched, Delay 91000]"
  by (simp add: newest_first_iteration id_value_examples)

section \<open>Failures while handling a mention\<close>

lemma process_mentions_append:
  "process_mentions env profiles (xs @ ys) st
     = process_mentions env profiles ys (process_mentions env profiles xs st)"
proof (induction xs arbitrary: st)
  case Nil
  then show ?case by (cases st) simp
next
  case (Cons x xs)
  obtain bt s where st: "st = (bt, s)" by (cases st)
  show ?case
    by (simp add: st Cons.IH Let_def split: prod.splits sum.splits)
qed

text \<open>
  C6 (amended). When the handling of a mention \<open>X\<close> of the batch fails, at the
  completion or at the post, the loop goes on with the mentions after \<open>X\<close> from the state
  the failure left: the cursor in memory and the file are as they were before \<open>X\<close> and no
  write is attempted for \<open>X\<close>; and every later mention gets its completion request.
\<close>

theorem mention_failure_is_isolated:
  assumes "process_mentions env profiles pre (bt, s) = (btX, sX)"
    and "handleMention env btX X profiles sX = (Inl err, s1)"
    and "process_mentions env profiles (pre @ X # post) (bt, s) = (bt', s')"
  shows "process_mentions env profiles post (btX, s1) = (bt', s')
       \<and> cursor_file s1 = cursor_file sX
       \<and> write_attempts (new_events sX s1) = []
       \<and> completions (new_events s1 s')
           = map (\<lambda>Y. createAIMessage (cleanTweetText (tweet_text Y)) profiles) post"
proof -
  have "process_mentions env profiles (pre @ X # post) (bt, s)
          = process_mentions env profiles (X # post) (btX, sX)"
    by (simp add: process_mentions_append assms(1))
  also have "\<dots> = process_mentions env profiles post (btX, s1)"
    by (simp add: assms(2))
  finally have rest: "process_mentions env profiles post (btX, s1) = (bt', s')"
    using assms(3) by simp
  from handleMention_events [OF assms(2)] obtain e1 where
    e1: "trace s1 = trace sX @ e1" "write_attempts e1 = []" "cursor_file s1 = cursor_file sX"
    by blast
  from process_mentions_events [OF rest] obtain e3 where
    e3: "trace s' = trace s1 @ e3"
      "completions e3 = map (\<lambda>Y. createAIMessage (cleanTweetText (tweet_text Y)) profiles) post"
    by blast
  have "write_attempts (new_events sX s1) = []"
    using new_events_append [OF e1(1)] e1(2) by simp
  moreover have "completions (new_events s1 s')
      = map (\<lambda>Y. createAIMessage (cleanTweetText (tweet_text Y)) profiles) post"
    using new_events_append [OF e3(1)] e3(2) by simp
  ultimately show ?thesis using rest e1(3) by simp
qed

lemma mention_simps: "tweet_id (mention i t) = i" "tweet_text (mention i t) = t"
  by (simp_all add: mention_def)

lemma reply_fails_first_mention:
  "handleMention reply_fails_env bot0 (mention ''3'' ''@vangogh hello'') [''alice''] state0
     = (Inl OpenAIError,
        \<lparr>world = (), cursor_file = None,
         trace = [ChatCompletion (request ''@vangogh hello'') True,
                  PostTweet ''No ears, no problem.'' (Some ''3'') False]\<rparr>)"
  by (simp add: run_defs reply_fails_env_def oldest_first_env_def)

lemma reply_fails_batch:
  "process_mentions reply_fails_env [''alice'']
       [mention ''3'' ''@vangogh hello'', mention ''5'' ''@vangogh hi''] (bot0, state0)
     = (bot0\<lparr>lastMentionId := Some ''5''\<rparr>,
        \<lparr>world = (), cursor_file = Some ''5'',
         trace = [ChatCompletion (request ''@vangogh hello'') True,
                  PostTweet ''No ears, no problem.'' (Some ''3'') False,
                  ChatCompletion (request ''@vangogh hi'') True,
                  PostTweet ''No ears, no problem.'' (Some ''5'') True,
                  WriteFile LAST_MENTION_FILE ''5'' True]\<rparr>)"
  by (simp add: run_defs reply_fails_env_def oldest_first_env_def)

theorem mention_failure_is_isolated_witness:
  "fst (handleMention reply_fails_env bot0 (mention ''3'' ''@vangogh hello'') [''alice''] state0)
     = Inl OpenAIError
   \<and> process_mentions reply_fails_env [''alice''] [mention ''5'' ''@vangogh hi'']
        (bot0, snd (handleMention reply_fails_env bot0 (mention ''3'' ''@vangogh hello'')
                      [''alice''] state0))
     = process_mentions reply_fails_env [''alice'']
         [mention ''3'' ''@vangogh hello'', mention ''5'' ''@vangogh hi''] (bot0, state0)
   \<and> completions (new_events
         (snd (handleMention reply_fails_env bot0 (mention ''3'' ''@vangogh hello'')
                 [''alice''] state0))
         (snd (process_mentions reply_fails_env [''alice'']
                 [mention ''3'' ''@vangogh hello'', mention ''5'' ''@vangogh hi''] (bot0, state0))))
     = [request ''@vangogh hi'']
   \<and> lastMentionId (fst (process_mentions reply_fails_env [''alice'']
         [mention ''3'' ''@vangogh hello'', mention ''5'' ''@vangogh hi''] (bot0, state0)))
     = Some ''5''"
proof -
  have pre: "process_mentions reply_fails_env [''alice''] [] (bot0, state0) = (bot0, state0)"
    by simp
  note t = mention_failure_is_isolated [OF pre reply_fails_first_mention,
      of "[mention ''5'' ''@vangogh hi'']", simplified append_Nil, OF reply_fails_batch]
  from t show ?thesis
    by (simp add: reply_fails_first_mention reply_fails_batch request_def mention_simps)
qed

text \<open>
  C6 as stated fails where it says the error is logged: the reply to mention 3 is
  rejected, and the whole iteration logs no error.
\<close>

theorem failure_not_logged_counterexample:
  "fst (handleMention reply_fails_env bot0 (mention ''3'' ''@vangogh hello'') [''alice''] state0)
     = Inl OpenAIError
   \<and> trace (snd (runBot_iteration reply_fails_env 91 (bot0, state0)))
     = [list_fetched, UserMentionTimeline ''42'' None True,
        ChatCompletion (request ''@vangogh hello'') True,
        PostTweet ''No ears, no problem.'' (Some ''3'') False,
        ChatCompletion (request ''@vangogh hi'') True,
        PostTweet ''No ears, no problem.'' (Some ''5'') True,
        WriteFile LAST_MENTION_FILE ''5'' True,
        feed_fetched, Delay 91000]
   \<and> log_errors (trace (snd (runBot_iteration reply_fails_env 91 (bot0, state0)))) = []"
  by (simp add: reply_fails_first_mention reply_fails_iteration obs_defs)

text \<open>
  C7: the completion succeeds, the platform rejects the reply, and \<open>handleMention\<close>
  reports the failure as \<open>OpenAIError\<close>, the kind of the completion API.
\<close>

theorem post_failure_reported_as_OpenAIError:
  "handleMention reply_fails_env bot0 (mention ''3'' ''@vangogh hello'') [''alice''] state0
     = (Inl OpenAIError,
        \<lparr>world = (), cursor_file = None,
         trace = [ChatCompletion (request ''@vangogh hello'') True,
                  PostTweet ''No ears, no problem.'' (Some ''3'') False]\<rparr>)"
  by (simp add: run_defs reply_fails_env_def oldest_first_env_def)

section \<open>Properties of the commit announcements\<close>

lemma fetchGitHubCommits_one_push:
  assumes "fst (axios_get env events_url (world s)) = Some feed"
    and "filter (\<lambda>event. event_type event = ''PushEvent'') feed = [push]"
    and "payload_commits push = Some cs"
  shows "fst (fetchGitHubCommits env s)
           = map (\<lambda>commit. \<lparr>ann_message = commit_message commit,
                              ann_url = commit_url (repo_name push) (commit_sha commit)\<rparr>) cs"
proof -
  obtain w1 where "axios_get env events_url (world s) = (Some feed, w1)"
    using assms(1) by (cases "axios_get env events_url (world s)") simp
  then show ?thesis
    using assms(2,3) by (simp add: fetchGitHubCommits_def call_def Let_def event_commits_def)
qed

lemma runBot_iteration_ends_with_delay:
  "last (trace (snd (runBot_iteration env interval (bt, s)))) = Delay (interval * 1000)"
  by (simp add: runBot_iteration_def delay_def emit_def Let_def split: prod.splits)

text \<open>
  C8. When the activity feed holds one push event, with two commits, the secondary task
  sends exactly two posts, one for each commit in order, each a new status that carries
  the URL \<open>https://github.com/vangogh-ai/<repo>/commit/<sha>\<close>; the posts are sent
  whether or not the platform accepts them, and every iteration reaches its sleep.
\<close>

theorem two_commits_two_announcements:
  assumes "fst (axios_get env events_url (world s)) = Some feed"
    and "filter (\<lambda>event. event_type event = ''PushEvent'') feed = [push]"
    and "payload_commits push = Some [c1, c2]"
  shows "posts (new_events s (tweetGitHubCommits env bt s))
           = [(''New commit by @vangogh-ai: \"'' @ commit_message c1 @ ''\"\<newline>''
                 @ ''https://github.com/vangogh-ai/'' @ repo_name push @ ''/commit/''
                 @ commit_sha c1, None),
              (''New commit by @vangogh-ai: \"'' @ commit_message c2 @ ''\"\<newline>''
                 @ ''https://github.com/vangogh-ai/'' @ repo_name push @ ''/commit/''
                 @ commit_sha c2, None)]
       \<and> last (trace (snd (runBot_iteration env interval (bt, s)))) = Delay (interval * 1000)"
proof -
  let ?a = "\<lambda>commit. \<lparr>ann_message = commit_message commit,
                         ann_url = commit_url (repo_name push) (commit_sha commit)\<rparr>"
  obtain cs s1 where f: "fetchGitHubCommits env s = (cs, s1)"
    by (cases "fetchGitHubCommits env s")
  have cs: "cs = [?a c1, ?a c2]"
    using fetchGitHubCommits_one_push [OF assms] f by simp
  from fetchGitHubCommits_events [OF f] obtain e1 where
    e1: "trace s1 = trace s @ e1" "posts e1 = []"
    by blast
  from tweet_commits_events [of env cs s1] obtain e2 where
    e2: "trace (tweet_commits env cs s1) = trace s1 @ e2"
      "posts e2 = map (\<lambda>c. (commit_text c, None)) cs"
    by blast
  have "tweetGitHubCommits env bt s = tweet_commits env cs s1"
    by (simp add: tweetGitHubCommits_def f)
  then have "trace (tweetGitHubCommits env bt s) = trace s @ (e1 @ e2)"
    using e1(1) e2(1) by simp
  then have "new_events s (tweetGitHubCommits env bt s) = e1 @ e2"
    by (rule new_events_append)
  then have "posts (new_events s (tweetGitHubCommits env bt s))
               = map (\<lambda>c. (commit_text c, None)) cs"
    using e1(2) e2(2) by (simp add: posts_def)
  then show ?thesis
    using runBot_iteration_ends_with_delay [of env interval bt s]
    by (simp add: cs commit_text_def commit_url_def GITHUB_USERNAME_def)
qed

theorem two_commits_two_announcements_witness:
  "fst (axios_get push_env events_url (world state0)) = Some two_commit_feed
   \<and> filter (\<lambda>event. event_type event = ''PushEvent'') two_commit_feed
       = [\<lparr>event_type = ''PushEvent'', repo_name = ''agent'',
           payload_commits = Some [\<lparr>commit_message = ''fix ears'', commit_sha = ''abc123''\<rparr>,
                                   \<lparr>commit_message = ''add paint'', commit_sha = ''def456''\<rparr>]\<rparr>]
   \<and> posts (new_events state0 (tweetGitHubCommits push_env bot0 state0))
       = [(''New commit by @vangogh-ai: \"fix ears\"\<newline>https://github.com/vangogh-ai/agent/commit/abc123'', None),
          (''New commit by @vangogh-ai: \"add paint\"\<newline>https://github.com/vangogh-ai/agent/commit/def456'', None)]
   \<and> trace (tweetGitHubCommits push_env bot0 state0)
       = [feed_fetched,
          PostTweet ''New commit by @vangogh-ai: \"fix ears\"\<newline>https://github.com/vangogh-ai/agent/commit/abc123'' None False,
          LogError ''Error tweeting commit:'',
          PostTweet ''New commit by @vangogh-ai: \"add paint\"\<newline>https://github.com/vangogh-ai/agent/commit/def456'' None True,
          LogInfo ''Tweeted commit: \"add paint\"'']"
proof -
  have a: "fst (axios_get push_env events_url (world state0)) = Some two_commit_feed"
    by (simp add: push_env_def)
  have b: "filter (\<lambda>event. event_type event = ''PushEvent'') two_commit_feed
       = [\<lparr>event_type = ''PushEvent'', repo_name = ''agent'',
           payload_commits = Some [\<lparr>commit_message = ''fix ears'', commit_sha = ''abc123''\<rparr>,
                                   \<lparr>commit_message = ''add paint'', commit_sha = ''def456''\<rparr>]\<rparr>]"
    by (simp add: two_commit_feed_def)
  have c: "payload_commits \<lparr>event_type = ''PushEvent'', repo_name = ''agent'',
           payload_commits = Some [\<lparr>commit_message = ''fix ears'', commit_sha = ''abc123''\<rparr>,
                                   \<lparr>commit_message = ''add paint'', commit_sha = ''def456''\<rparr>]\<rparr>
        = Some [\<lparr>commit_message = ''fix ears'', commit_sha = ''abc123''\<rparr>,
                \<lparr>commit_message = ''add paint'', commit_sha = ''def456''\<rparr>]"
    by simp
  have d: "trace (tweetGitHubCommits push_env bot0 state0)
       = [feed_fetched,
          PostTweet ''New commit by @vangogh-ai: \"fix ears\"\<newline>https://github.com/vangogh-ai/agent/commit/abc123'' None False,
          LogError ''Error tweeting commit:'',
          PostTweet ''New commit by @vangogh-ai: \"add paint\"\<newline>https://github.com/vangogh-ai/agent/commit/def456'' None True,
          LogInfo ''Tweeted commit: \"add paint\"'']"
    by (simp add: run_defs push_env_def two_commit_feed_def event_commits_def commit_text_def
        commit_url_def GITHUB_USERNAME_def)
  from two_commits_two_announcements [OF a b c, of bot0 91] a b d show ?thesis
    by simp
qed

section \<open>Persistence of the cursor\<close>

lemma main_cursor:
  assumes "main env s = (Inr bt, s')"
  shows "lastMentionId bt = read_lastMentionId s"
proof -
  obtain me w1 where me: "v2_me env (world s) = (me, w1)"
    by (cases "v2_me env (world s)")
  show ?thesis
  proof (cases "createClients env")
    case (Inl e)
    with assms show ?thesis by (simp add: main_def)
  next
    case (Inr u)
    show ?thesis
    proof (cases me)
      case None
      with assms Inr me show ?thesis
        by (simp add: main_def initializeBot_def call_def emit_def Let_def)
    next
      case (Some p)
      obtain i n where "p = (i, n)" by (cases p)
      with assms Inr me Some show ?thesis
        by (auto simp: main_def initializeBot_def call_def emit_def Let_def)
    qed
  qed
qed

text \<open>
  C10. An id with no white space at either end, once written by \<open>saveLastMentionId\<close>,
  is read back unchanged by the startup load of a later run, and is the starting cursor
  of the bot that \<open>main\<close> initializes.
\<close>

theorem cursor_round_trip:
  assumes "no_outer_space mentionId"
    and "saveLastMentionId env mentionId s = (Inr (), s1)"
    and "cursor_file s2 = cursor_file s1"
  shows "read_lastMentionId s2 = Some mentionId
       \<and> (main env2 s2 = (Inr bt, s3) \<longrightarrow> lastMentionId bt = Some mentionId)"
proof -
  obtain written w1 where
    "fs_writeFile env LAST_MENTION_FILE mentionId (world s) = (written, w1)"
    by (cases "fs_writeFile env LAST_MENTION_FILE mentionId (world s)")
  with assms(2) have "cursor_file s1 = Some mentionId"
    by (auto simp: saveLastMentionId_def call_def emit_def Let_def split: if_splits)
  with assms(3) have "cursor_file s2 = Some mentionId" by simp
  then have r: "read_lastMentionId s2 = Some mentionId"
    using trim_no_outer_space [OF assms(1)] by (simp add: read_lastMentionId_def)
  then show ?thesis using main_cursor [of env2 s2 bt s3] by simp
qed


theorem cursor_round_trip_witness:
  "no_outer_space ''1864297489920045098''
   \<and> fst (saveLastMentionId quiet_env ''1864297489920045098'' state0) = Inr ()
   \<and> read_lastMentionId (snd (saveLastMentionId quiet_env ''1864297489920045098'' state0))
       = Some ''1864297489920045098''
   \<and> fst (main quiet_env (snd (saveLastMentionId quiet_env ''1864297489920045098'' state0)))
       = Inr \<lparr>userId = ''42'', username = ''vangogh'',
              lastMentionId = Some ''1864297489920045098''\<rparr>"
proof -
  let ?i = "''1864297489920045098''"
  let ?s1 = "snd (saveLastMentionId quiet_env ?i state0)"
  let ?bt = "\<lparr>userId = ''42'', username = ''vangogh'', lastMentionId = read_lastMentionId ?s1\<rparr>"
  have a: "no_outer_space ?i"
    by (simp add: no_outer_space_def is_space_char_def)
  have b: "saveLastMentionId quiet_env ?i state0 = (Inr (), ?s1)"
    by (simp add: saveLastMentionId_def call_def emit_def quiet_env_def state0_def)
  have c: "main quiet_env ?s1 = (Inr ?bt, snd (main quiet_env ?s1))"
    by (simp add: main_def createClients_def initializeBot_def call_def emit_def quiet_env_def
        Let_def)
  have b': "fst (saveLastMentionId quiet_env ?i state0) = Inr ()"
    by (subst b) simp
  have c': "fst (main quiet_env ?s1) = Inr ?bt"
    by (subst c) simp
  from cursor_round_trip [OF a b refl, of quiet_env ?bt "snd (main quiet_env ?s1)"] a b' c' c
  show ?thesis by simp
qed

section \<open>Properties of the whole run\<close>

lemma sorted_wrt_le_last:
  fixes key :: "'a \<Rightarrow> 'k::linorder"
  assumes "sorted_wrt (\<lambda>x y. key x < key y) xs" and "x \<in> set xs"
  shows "key x \<le> key (last xs)"
proof -
  from assms(2) have "xs \<noteq> []" by auto
  with assms(1) have "key (last xs) = Max (key ` set xs)"
    by (rule sorted_wrt_last_Max)
  with assms(2) show ?thesis by simp
qed

lemma iteration_run:
  fixes key :: "string \<Rightarrow> 'k::linorder"
  assumes "runBot_iteration env interval (bt, s) = (bt', s')"
  shows "\<exists>evs. trace s' = trace s @ evs
           \<and> fetches_follow_cursor (lastMentionId bt) evs
           \<and> bt' = bt\<lparr>lastMentionId := cursor_after (lastMentionId bt) evs\<rparr>
           \<and> write_attempts evs = ok_replies evs
           \<and> (platform_ascending key env \<longrightarrow>
                sorted_wrt (\<lambda>x y. key x < key y) (ok_replies evs)
                \<and> (\<forall>c. lastMentionId bt = Some c \<longrightarrow> (\<forall>x \<in> set (ok_replies evs). key c < key x)))"
proof -
  let ?c = "lastMentionId bt"
  obtain profiles s1 where p: "fetchTwitterListProfiles env s = (profiles, s1)"
    by (cases "fetchTwitterListProfiles env s")
  obtain fetched s2 where g: "getMentions env bt ?c s1 = (fetched, s2)"
    by (cases "getMentions env bt ?c s1")
  let ?ms = "case fetched of Inr ms \<Rightarrow> ms | Inl _ \<Rightarrow> []"
  let ?F = "UserMentionTimeline (userId bt) ?c (\<not> isl fetched)"
  from runBot_iteration_events [OF p g assms] obtain e0 eM eG where
    tr: "trace s' = trace s @ e0 @ [?F] @ eM @ eG"
    and side: "list_all side_event e0" "list_all mention_event eM" "list_all side_event eG"
    and sub: "subseq (ok_replies eM) (map tweet_id ?ms)"
    and w: "write_attempts eM = ok_replies eM"
    and b: "bt' = bt\<lparr>lastMentionId := cursor_after ?c eM\<rparr>"
    by blast
  let ?evs = "e0 @ [?F] @ eM @ eG"
  note o0 = side_events_obs [OF side(1)] and oG = side_events_obs [OF side(3)]
  have ok: "ok_replies ?evs = ok_replies eM"
    by (simp add: obs_append obs_fetch o0 oG)
  have wa: "write_attempts ?evs = write_attempts eM"
    by (simp add: obs_append obs_fetch o0 oG)
  have ca: "cursor_after ?c ?evs = cursor_after ?c eM"
    using ok by (simp add: cursor_after_def)
  have "fetches_follow_cursor ?c ([?F] @ eM @ eG)"
    using fetches_follow_cursor_mention [OF side(2), of ?c]
      fetches_follow_cursor_side [OF side(3), of "cursor_after ?c eM"]
    by (simp add: fetches_follow_cursor_append)
  then have ffc: "fetches_follow_cursor ?c ?evs"
    using fetches_follow_cursor_side [OF side(1), of ?c] cursor_after_side [OF side(1), of ?c]
    by (simp only: fetches_follow_cursor_append [of ?c e0] simp_thms)
  have asc: "sorted_wrt (\<lambda>x y. key x < key y) (ok_replies eM)
             \<and> (\<forall>c. ?c = Some c \<longrightarrow> (\<forall>x \<in> set (ok_replies eM). key c < key x))"
    if pa: "platform_ascending key env"
  proof (cases "ok_replies eM = []")
    case True
    then show ?thesis by simp
  next
    case False
    with sub obtain ms where ms: "fetched = Inr ms" "ms \<noteq> []"
    proof (cases fetched)
      case (Inl e)
      with sub False show ?thesis by simp
    next
      case (Inr ms)
      with sub False have "ms \<noteq> []" by auto
      with Inr that show ?thesis by blast
    qed
    with getMentions_result [of env bt ?c s1 ms s2] g
    have "fst (v2_userMentionTimeline env (userId bt) ?c (world s1)) = Some (Some ms)"
      by simp
    with pa have a: "ascending key ms"
      and above: "\<forall>c. ?c = Some c \<longrightarrow> (\<forall>t \<in> set ms. key c < key (tweet_id t))"
      by (auto simp: platform_ascending_def)
    from sub ms have sub': "subseq (ok_replies eM) (map tweet_id ms)" by simp
    then have "sorted_wrt (\<lambda>x y. key x < key y) (ok_replies eM)"
      using a by (auto simp: ascending_def intro: subseq_sorted_wrt)
    moreover have "set (ok_replies eM) \<subseteq> tweet_id ` set ms"
      using sub' list_emb_set [of "(=)" "ok_replies eM" "map tweet_id ms"] by auto
    ultimately show ?thesis using above by auto
  qed
  show ?thesis
    using tr ffc b w asc by (intro exI [of _ ?evs]) (simp only: ok wa ca simp_thms, blast)
qed

lemma runBot_events:
  fixes key :: "string \<Rightarrow> 'k::linorder"
  assumes "runBot env interval n (bt, s) = (bt', s')"
  shows "\<exists>evs. trace s' = trace s @ evs
           \<and> fetches_follow_cursor (lastMentionId bt) evs
           \<and> bt' = bt\<lparr>lastMentionId := cursor_after (lastMentionId bt) evs\<rparr>
           \<and> write_attempts evs = ok_replies evs
           \<and> (platform_ascending key env \<longrightarrow>
                sorted_wrt (\<lambda>x y. key x < key y) (ok_replies evs)
                \<and> (\<forall>c. lastMentionId bt = Some c \<longrightarrow> (\<forall>x \<in> set (ok_replies evs). key c < key x)))"
  using assms
proof (induction n arbitrary: bt s)
  case 0
  then show ?case
    by (intro exI [of _ "[]"]) (simp add: cursor_after_def ok_replies_def write_attempts_def)
next
  case (Suc n)
  let ?c = "lastMentionId bt"
  obtain bt1 s1 where it: "runBot_iteration env interval (bt, s) = (bt1, s1)"
    by (cases "runBot_iteration env interval (bt, s)")
  with Suc.prems have rest: "runBot env interval n (bt1, s1) = (bt', s')" by simp
  from iteration_run [OF it, of key] obtain a where
    a: "trace s1 = trace s @ a" "fetches_follow_cursor ?c a"
      "bt1 = bt\<lparr>lastMentionId := cursor_after ?c a\<rparr>" "write_attempts a = ok_replies a"
      "platform_ascending key env \<longrightarrow>
         sorted_wrt (\<lambda>x y. key x < key y) (ok_replies a)
         \<and> (\<forall>c. ?c = Some c \<longrightarrow> (\<forall>x \<in> set (ok_replies a). key c < key x))"
    by blast
  have c1: "lastMentionId bt1 = cursor_after ?c a" using a(3) by simp
  from Suc.IH [OF rest] obtain b where
    b: "trace s' = trace s1 @ b" "fetches_follow_cursor (cursor_after ?c a) b"
      "bt' = bt1\<lparr>lastMentionId := cursor_after (cursor_after ?c a) b\<rparr>"
      "write_attempts b = ok_replies b"
      "platform_ascending key env \<longrightarrow>
         sorted_wrt (\<lambda>x y. key x < key y) (ok_replies b)
         \<and> (\<forall>c. cursor_after ?c a = Some c \<longrightarrow> (\<forall>x \<in> set (ok_replies b). key c < key x))"
    unfolding c1 by blast
  have 1: "trace s' = trace s @ (a @ b)" using a(1) b(1) by simp
  have 2: "fetches_follow_cursor ?c (a @ b)"
    using a(2) b(2) by (simp add: fetches_follow_cursor_append)
  have 3: "bt' = bt\<lparr>lastMentionId := cursor_after ?c (a @ b)\<rparr>"
    using a(3) b(3) by (simp add: cursor_after_append)
  have 4: "write_attempts (a @ b) = ok_replies (a @ b)"
    using a(4) b(4) by (simp add: obs_append)
  have 5: "sorted_wrt (\<lambda>x y. key x < key y) (ok_replies (a @ b))
           \<and> (\<forall>c. ?c = Some c \<longrightarrow> (\<forall>x \<in> set (ok_replies (a @ b)). key c < key x))"
    if pa: "platform_ascending key env"
  proof -
    let ?A = "ok_replies a" and ?B = "ok_replies b"
    from pa a(5) have sa: "sorted_wrt (\<lambda>x y. key x < key y) ?A"
      and ba: "\<forall>c. ?c = Some c \<longrightarrow> (\<forall>x \<in> set ?A. key c < key x)" by simp_all
    from pa b(5) have sb: "sorted_wrt (\<lambda>x y. key x < key y) ?B"
      and bb: "\<forall>c. cursor_after ?c a = Some c \<longrightarrow> (\<forall>x \<in> set ?B. key c < key x)" by simp_all
    have cross: "key x < key y" if "x \<in> set ?A" "y \<in> set ?B" for x y
    proof -
      from that(1) have "?A \<noteq> []" by auto
      then have "cursor_after ?c a = Some (last ?A)" by (simp add: cursor_after_def)
      with bb that(2) have "key (last ?A) < key y" by simp
      moreover have "key x \<le> key (last ?A)" using sa that(1) by (rule sorted_wrt_le_last)
      ultimately show ?thesis by simp
    qed
    have bound: "key c < key y" if "?c = Some c" "y \<in> set ?B" for c y
    proof (cases "?A = []")
      case True
      then have "cursor_after ?c a = ?c" by (simp add: cursor_after_def)
      with bb that show ?thesis by simp
    next
      case False
      then have "last ?A \<in> set ?A" by simp
      with ba that(1) have "key c < key (last ?A)" by simp
      moreover have "key (last ?A) < key y" using cross [OF \<open>last ?A \<in> set ?A\<close> that(2)] .
      ultimately show ?thesis by simp
    qed
    show ?thesis
      using sa sb cross ba bound by (auto simp: obs_append sorted_wrt_append)
  qed
  show ?case
    using 1 2 3 4 5 by (intro exI [of _ "a @ b"]) blast
qed


text \<open>
  C5 (amended). Across the first \<open>n\<close> iterations of the loop, for every \<open>n\<close>: every
  mention fetch sends as \<open>since_id\<close> the in-memory cursor of that moment (nothing when
  there is no cursor), the bound above which the platform is asked for mentions; and
  when the platform answers every fetch in ascending order of id, with ids above the
  \<open>since_id\<close> it was sent, the values handed to the cursor file, and those of them that
  reach it, are in non-decreasing order.
\<close>

theorem cursor_writes_monotone:
  fixes key :: "string \<Rightarrow> 'k::linorder"
  assumes "runBot env interval n (bt, s) = (bt', s')"
  shows "fetches_follow_cursor (lastMentionId bt) (new_events s s')
       \<and> (platform_ascending key env \<longrightarrow>
            sorted_wrt (\<lambda>x y. key x \<le> key y) (write_attempts (new_events s s'))
            \<and> sorted_wrt (\<lambda>x y. key x \<le> key y) (ok_writes (new_events s s')))"
proof -
  from runBot_events [OF assms, of key] obtain evs where
    evs: "trace s' = trace s @ evs" "fetches_follow_cursor (lastMentionId bt) evs"
      "write_attempts evs = ok_replies evs"
      "platform_ascending key env \<longrightarrow> sorted_wrt (\<lambda>x y. key x < key y) (ok_replies evs)"
    by blast
  have ne: "new_events s s' = evs" using evs(1) by (rule new_events_append)
  have "sorted_wrt (\<lambda>x y. key x \<le> key y) (write_attempts evs)
        \<and> sorted_wrt (\<lambda>x y. key x \<le> key y) (ok_writes evs)"
    if "platform_ascending key env"
  proof -
    from that evs(3,4) have "sorted_wrt (\<lambda>x y. key x < key y) (write_attempts evs)"
      by simp
    then have w: "sorted_wrt (\<lambda>x y. key x \<le> key y) (write_attempts evs)"
      by (rule sorted_wrt_mono_rel [rotated]) simp
    from ok_writes_subseq [of evs] w
    have "sorted_wrt (\<lambda>x y. key x \<le> key y) (ok_writes evs)"
      by (rule subseq_sorted_wrt)
    with w show ?thesis by simp
  qed
  with evs(2) show ?thesis by (simp add: ne)
qed

lemma oldest_first_two_iterations:
  "runBot oldest_first_env 91 (Suc (Suc 0)) (bot0, state0)
     = (bot0\<lparr>lastMentionId := Some ''5''\<rparr>,
        \<lparr>world = (), cursor_file = Some ''5'',
         trace = [list_fetched, UserMentionTimeline ''42'' None True,
                  ChatCompletion (request ''@vangogh hello'') True,
                  PostTweet ''No ears, no problem.'' (Some ''3'') True,
                  WriteFile LAST_MENTION_FILE ''3'' True,
                  ChatCompletion (request ''@vangogh hi'') True,
                  PostTweet ''No ears, no problem.'' (Some ''5'') True,
                  WriteFile LAST_MENTION_FILE ''5'' True,
                  feed_fetched, Delay 91000,
                  list_fetched, UserMentionTimeline ''42'' (Some ''5'') True,
                  feed_fetched, Delay 91000]\<rparr>)"
  by (simp add: oldest_first_iteration) (simp add: run_defs oldest_first_env_def)

lemma oldest_first_platform_ascending: "platform_ascending id_value oldest_first_env"
  by (auto simp: platform_ascending_def oldest_first_env_def ascending_def mention_simps
      id_value_examples split: option.splits)

theorem cursor_writes_monotone_witness:
  "platform_ascending id_value oldest_first_env
   \<and> ok_writes (new_events state0 (snd (runBot oldest_first_env 91 (Suc (Suc 0)) (bot0, state0))))
       = [''3'', ''5'']
   \<and> sorted_wrt (\<lambda>x y. id_value x \<le> id_value y)
       (ok_writes (new_events state0 (snd (runBot oldest_first_env 91 (Suc (Suc 0)) (bot0, state0)))))
   \<and> fetches_follow_cursor None
       (new_events state0 (snd (runBot oldest_first_env 91 (Suc (Suc 0)) (bot0, state0))))"
proof -
  have ev: "new_events state0 (snd (runBot oldest_first_env 91 (Suc (Suc 0)) (bot0, state0)))
      = [list_fetched, UserMentionTimeline ''42'' None True,
         ChatCompletion (request ''@vangogh hello'') True,
         PostTweet ''No ears, no problem.'' (Some ''3'') True,
         WriteFile LAST_MENTION_FILE ''3'' True,
         ChatCompletion (request ''@vangogh hi'') True,
         PostTweet ''No ears, no problem.'' (Some ''5'') True,
         WriteFile LAST_MENTION_FILE ''5'' True,
         feed_fetched, Delay 91000,
         list_fetched, UserMentionTimeline ''42'' (Some ''5'') True,
         feed_fetched, Delay 91000]"
    by (simp only: oldest_first_two_iterations new_events_state0) simp
  from cursor_writes_monotone [OF oldest_first_two_iterations, of id_value]
    oldest_first_platform_ascending
  show ?thesis
    unfolding ev by (simp add: obs_defs start_values cursor_after_def id_value_examples)
qed

text \<open>
  C5 as stated fails: the fetch answers the mentions 5 and 3 in this order, and the file
  is written with 5 and then with 3.
\<close>

theorem cursor_writes_decrease_counterexample:
  "ok_writes (new_events state0 (snd (runBot newest_first_env 91 (Suc 0) (bot0, state0))))
     = [''5'', ''3'']
   \<and> \<not> id_value ''5'' \<le> id_value ''3''"
  by (simp add: newest_first_iteration new_events_state0 obs_defs id_value_examples)

end
